theory Spec2Isabelle
  imports Complex_Main "HOL-Library.AList"
begin

section \<open>Data model of the tag-game server\<close>

text \<open>
  The server keeps two globals: the player registry \<open>players\<close> (a JavaScript object keyed
  by socket id, iterated by \<open>for ... in\<close> in insertion order) and \<open>currentMap\<close>.
  The registry is an association list in insertion order: \<open>map_of\<close> is the lookup
  \<open>players[id]\<close>, \<open>AList.update\<close> is the assignment \<open>players[id] = v\<close> (in place for a
  key that exists, appended for a new one) and \<open>AList.delete\<close> is \<open>delete players[id]\<close>.
  JavaScript numbers are modelled as reals, timestamps (\<open>Date.now()\<close>) as integers. In
  \<open>checkCollision\<close> every operation is rounded as the program rounds it; everywhere else
  the operations are exact, where the program's rounding moves a wall edge, a portal
  centre or a spawn point by a relative \<open>2 ^ (-53)\<close> at most.
  The player fields \<open>x\<close>, \<open>y\<close>, \<open>id\<close>, \<open>map\<close> are named \<open>px\<close>, \<open>py\<close>, \<open>pid\<close>, \<open>map_name\<close>;
  the wall fields \<open>x\<close>, \<open>y\<close>, \<open>w\<close>, \<open>h\<close> carry the prefix \<open>wall_\<close>, the portal fields
  \<open>x\<close>, \<open>y\<close> the prefix \<open>portal_\<close>.
\<close>

definition PLAYER_SIZE :: real where "PLAYER_SIZE = 15"
definition NORMAL_SPEED :: real where "NORMAL_SPEED = 3"
definition TAGGER_SPEED :: real where "TAGGER_SPEED = 3.75"
definition FREEZE_TIME :: int where "FREEZE_TIME = 5000"
definition DEFAULT_WIDTH :: real where "DEFAULT_WIDTH = 1920"
definition DEFAULT_HEIGHT :: real where "DEFAULT_HEIGHT = 1080"

record wall =
  wall_x :: real
  wall_y :: real
  wall_w :: real
  wall_h :: real

record portal =
  portal_x :: real
  portal_y :: real
  radius :: real
  target :: nat

record input =
  up :: bool
  down :: bool
  left :: bool
  right :: bool

record player =
  pid :: string
  name :: string
  px :: real
  py :: real
  color :: string
  isTagger :: bool
  frozen :: bool
  frozenUntil :: int
  input :: input
  screenWidth :: real
  screenHeight :: real
  map_name :: string
  walls :: "wall list"

type_synonym registry = "(string \<times> player) list"

datatype map_key = MapPlus | MapTeleport | MapCorners | MapArena

record game =
  players :: registry
  currentMap :: map_key

datatype error = TypeError

subsection \<open>Map catalog\<close>

definition mk_wall :: "real \<Rightarrow> real \<Rightarrow> real \<Rightarrow> real \<Rightarrow> wall" where
  "mk_wall a b c d = \<lparr>wall_x = a, wall_y = b, wall_w = c, wall_h = d\<rparr>"

definition mk_portal :: "real \<Rightarrow> real \<Rightarrow> real \<Rightarrow> nat \<Rightarrow> portal" where
  "mk_portal a b r t = \<lparr>portal_x = a, portal_y = b, radius = r, target = t\<rparr>"

definition mapKeys :: "map_key list" where
  "mapKeys = [MapPlus, MapTeleport, MapCorners, MapArena]"

fun maps_name :: "map_key \<Rightarrow> string" where
  "maps_name MapPlus = ''Plus''"
| "maps_name MapTeleport = ''Teleport''"
| "maps_name MapCorners = ''Four Corners''"
| "maps_name MapArena = ''Arena''"

fun getWalls :: "map_key \<Rightarrow> real \<Rightarrow> real \<Rightarrow> wall list" where
  "getWalls MapPlus w h =
     [mk_wall (w * 0.24) (h * 0.477) (w * 0.52) (h * 0.046),
      mk_wall (w * 0.487) (h * 0.222) (w * 0.026) (h * 0.556)]"
| "getWalls MapTeleport w h =
     [mk_wall (w * 0.487) (h * 0.1) (w * 0.026) (h * 0.8)]"
| "getWalls MapCorners w h =
     [mk_wall (w * 0.156) (h * 0.231) (w * 0.156) (h * 0.046),
      mk_wall (w * 0.156) (h * 0.231) (w * 0.026) (h * 0.278),
      mk_wall (w * 0.688) (h * 0.231) (w * 0.156) (h * 0.046),
      mk_wall (w * 0.818) (h * 0.231) (w * 0.026) (h * 0.278),
      mk_wall (w * 0.156) (h * 0.722) (w * 0.156) (h * 0.046),
      mk_wall (w * 0.156) (h * 0.491) (w * 0.026) (h * 0.278),
      mk_wall (w * 0.688) (h * 0.722) (w * 0.156) (h * 0.046),
      mk_wall (w * 0.818) (h * 0.491) (w * 0.026) (h * 0.278)]"
| "getWalls MapArena w h =
     [mk_wall (w * 0.448) (h * 0.407) (w * 0.104) (h * 0.185),
      mk_wall (w * 0.208) (h * 0.278) (w * 0.052) (h * 0.093),
      mk_wall (w * 0.740) (h * 0.278) (w * 0.052) (h * 0.093),
      mk_wall (w * 0.208) (h * 0.630) (w * 0.052) (h * 0.093),
      mk_wall (w * 0.740) (h * 0.630) (w * 0.052) (h * 0.093)]"

text \<open>Only the teleport map has a \<open>getPortals\<close> member; on the others it is \<open>undefined\<close>.\<close>

fun getPortals :: "map_key \<Rightarrow> (real \<Rightarrow> real \<Rightarrow> portal list) option" where
  "getPortals MapTeleport = Some (\<lambda>w h.
     [mk_portal (w * 0.25) (h * 0.25) 40 3,
      mk_portal (w * 0.75) (h * 0.25) 40 2,
      mk_portal (w * 0.25) (h * 0.75) 40 1,
      mk_portal (w * 0.75) (h * 0.75) 40 0])"
| "getPortals _ = None"

subsection \<open>Randomness\<close>

text \<open>
  \<open>Math.random()\<close> is an injected source: \<open>rnd k\<close> feeds the \<open>k\<close>-th call, and every
  function that draws returns the index of the next unused draw. The contract of
  \<open>Math.random\<close> (a number in \<open>[0, 1)\<close>) holds by construction: the draw is the fractional
  part of the fed value, and every number of \<open>[0, 1)\<close> is its own fractional part.
\<close>

definition Math_random :: "(nat \<Rightarrow> real) \<Rightarrow> nat \<Rightarrow> real" where
  "Math_random rnd k = frac (rnd k)"

definition random_index :: "(nat \<Rightarrow> real) \<Rightarrow> nat \<Rightarrow> nat \<Rightarrow> nat" where
  \<comment> \<open>\<open>Math.floor(Math.random() * n)\<close>\<close>
  "random_index rnd k n = nat \<lfloor>Math_random rnd k * real n\<rfloor>"

definition colors :: "string list" where
  "colors = [''#FF6B6B'', ''#4ECDC4'', ''#45B7D1'', ''#FFA07A'', ''#98D8C8'',
             ''#F7DC6F'', ''#BB8FCE'', ''#85C1E2'', ''#F8B739'', ''#52B788'']"

definition randomColor :: "(nat \<Rightarrow> real) \<Rightarrow> nat \<Rightarrow> string \<times> nat" where
  "randomColor rnd k = (colors ! random_index rnd k (length colors), k + 1)"

subsection \<open>Walls, spawn placement, proximity, portals\<close>

definition getWallsForPlayer :: "registry \<Rightarrow> map_key \<Rightarrow> string \<Rightarrow> wall list" where
  "getWallsForPlayer ps cur playerId =
     (case map_of ps playerId of
        None \<Rightarrow> []
      | Some p \<Rightarrow> getWalls cur (screenWidth p) (screenHeight p))"

definition getPortalsForPlayer :: "registry \<Rightarrow> map_key \<Rightarrow> string \<Rightarrow> portal list" where
  "getPortalsForPlayer ps cur playerId =
     (case map_of ps playerId of
        None \<Rightarrow> []
      | Some p \<Rightarrow> (case getPortals cur of
                    None \<Rightarrow> []
                  | Some gp \<Rightarrow> gp (screenWidth p) (screenHeight p)))"

definition overlaps :: "real \<Rightarrow> real \<Rightarrow> wall \<Rightarrow> bool" where
  \<comment> \<open>the condition of the \<open>if\<close> inside \<open>checkWallCollision\<close>\<close>
  "overlaps x y wall \<longleftrightarrow>
     x + PLAYER_SIZE > wall_x wall \<and> x - PLAYER_SIZE < wall_x wall + wall_w wall \<and>
     y + PLAYER_SIZE > wall_y wall \<and> y - PLAYER_SIZE < wall_y wall + wall_h wall"

fun wall_loop :: "real \<Rightarrow> real \<Rightarrow> wall list \<Rightarrow> bool" where
  "wall_loop x y [] = False"
| "wall_loop x y (wall # rest) = (if overlaps x y wall then True else wall_loop x y rest)"

definition checkWallCollision :: "registry \<Rightarrow> map_key \<Rightarrow> real \<Rightarrow> real \<Rightarrow> string \<Rightarrow> bool" where
  "checkWallCollision ps cur x y playerId = wall_loop x y (getWallsForPlayer ps cur playerId)"

text \<open>
  The \<open>do ... while\<close> loop of \<open>findSafeSpawn\<close>: \<open>attempts\<close> is the counter before the
  iteration; the result is the last sample and the index of the next unused draw.
\<close>

function spawn_loop ::
  "(nat \<Rightarrow> real) \<Rightarrow> nat \<Rightarrow> nat \<Rightarrow> registry \<Rightarrow> map_key \<Rightarrow> string \<Rightarrow> real \<Rightarrow> real
     \<Rightarrow> real \<times> real \<times> nat" where
  "spawn_loop rnd k attempts ps cur playerId sw sh =
     (let x = Math_random rnd k * (sw - 200) + 100;
          y = Math_random rnd (k + 1) * (sh - 200) + 100
      in if checkWallCollision ps cur x y playerId \<and> attempts + 1 < 100
         then spawn_loop rnd (k + 2) (attempts + 1) ps cur playerId sw sh
         else (x, y, k + 2))"
  by pat_completeness auto
termination
  by (relation "measure (\<lambda>(rnd, k, attempts, ps, cur, playerId, sw, sh). 100 - attempts)") auto

declare spawn_loop.simps [simp del]

definition findSafeSpawn ::
  "(nat \<Rightarrow> real) \<Rightarrow> nat \<Rightarrow> registry \<Rightarrow> map_key \<Rightarrow> string \<Rightarrow> real \<Rightarrow> real
     \<Rightarrow> real \<times> real \<times> nat" where
  "findSafeSpawn rnd k ps cur playerId sw sh =
     (case spawn_loop rnd k 0 ps cur playerId sw sh of
        (x, y, k') \<Rightarrow>
          if checkWallCollision ps cur x y playerId then (sw / 2, sh / 2, k') else (x, y, k'))"

text \<open>
  \<open>checkCollision\<close> decides on a strict boundary that integer pixel positions reach (two
  players 30 apart), so here the arithmetic of JavaScript numbers is written out: every
  operation returns the binary64 number nearest to the exact result, ties going to the
  even mantissa. \<open>fl\<close> is that rounding, with 53 significant bits: for \<open>x\<close> with
  \<open>2 ^ e \<le> \<bar>x\<bar> < 2 ^ (e + 1)\<close> the spacing of the numbers is \<open>2 ^ (e - 52)\<close>. The
  exponent range of binary64 (overflow, subnormal numbers) and \<open>NaN\<close> operands are not
  modelled. \<open>Math.min\<close> and the comparison are exact.
\<close>

definition round_half_even :: "real \<Rightarrow> int" where
  "round_half_even q =
     (let f = \<lfloor>q\<rfloor>; r = q - of_int f
      in if r < 1 / 2 then f else if 1 / 2 < r then f + 1 else if even f then f else f + 1)"

definition fl :: "real \<Rightarrow> real" where
  "fl x = (if x = 0 then 0
           else let e = \<lfloor>log 2 \<bar>x\<bar>\<rfloor>; u = 2 powr (of_int e - 52)
                in of_int (round_half_even (x / u)) * u)"

text \<open>
  \<open>checkCollision\<close> divides by the viewport dimensions. In IEEE arithmetic a zero
  dimension makes the quotient infinite or NaN, the product with the minimum NaN or
  infinite, and the final comparison false; HOL's \<open>x / 0 = 0\<close> would hide that, so the
  case is written out.
\<close>

definition checkCollision :: "player \<Rightarrow> player \<Rightarrow> bool" where
  "checkCollision p1 p2 =
     (if screenWidth p1 = 0 \<or> screenHeight p1 = 0 \<or> screenWidth p2 = 0 \<or> screenHeight p2 = 0
      then False
      else
        let p1NormX = fl (px p1 / screenWidth p1);
            p1NormY = fl (py p1 / screenHeight p1);
            p2NormX = fl (px p2 / screenWidth p2);
            p2NormY = fl (py p2 / screenHeight p2);
            dx = fl (fl (p1NormX - p2NormX) * min (screenWidth p1) (screenWidth p2));
            dy = fl (fl (p1NormY - p2NormY) * min (screenHeight p1) (screenHeight p2));
            distance = fl (sqrt (fl (fl (dx * dx) + fl (dy * dy))))
        in distance < PLAYER_SIZE * 2)"

text \<open>
  The \<open>for\<close> loop of \<open>checkPortalCollision\<close>: \<open>all\<close> is the whole portal list (indexed by
  \<open>portal.target\<close>), the second list is what is left to scan. An index outside the list
  gives \<open>undefined\<close>, whose \<open>.x\<close> throws.
\<close>

fun portal_loop :: "portal list \<Rightarrow> portal list \<Rightarrow> real \<Rightarrow> real \<Rightarrow> error + (real \<times> real) option" where
  "portal_loop all [] x y = Inr None"
| "portal_loop all (portal # rest) x y =
     (let dx = x - portal_x portal;
          dy = y - portal_y portal;
          distance = sqrt (dx * dx + dy * dy)
      in if distance < radius portal
         then (if target portal < length all
               then Inr (Some (portal_x (all ! target portal), portal_y (all ! target portal)))
               else Inl TypeError)
         else portal_loop all rest x y)"

definition checkPortalCollision :: "registry \<Rightarrow> map_key \<Rightarrow> player \<Rightarrow> error + player" where
  "checkPortalCollision ps cur player =
     (case getPortals cur of
        None \<Rightarrow> Inr player
      | Some gp \<Rightarrow>
          (let portals = getPortalsForPlayer ps cur (pid player)
           in case portal_loop portals portals (px player) (py player) of
                Inl e \<Rightarrow> Inl e
              | Inr None \<Rightarrow> Inr player
              | Inr (Some (tx, ty)) \<Rightarrow> Inr (player\<lparr>px := tx, py := ty\<rparr>)))"

subsection \<open>Event handlers\<close>

text \<open>
  The payload of a \<open>join\<close> event; an absent dimension is \<open>None\<close>. The operator \<open>||\<close> takes
  the default for an absent dimension and for \<open>0\<close>.
\<close>

record join_data =
  join_name :: string
  join_screenWidth :: "real option"
  join_screenHeight :: "real option"

definition or_default :: "real option \<Rightarrow> real \<Rightarrow> real" where
  "or_default v d = (case v of None \<Rightarrow> d | Some w \<Rightarrow> if w = 0 then d else w)"

definition no_input :: input where
  "no_input = \<lparr>up = False, down = False, left = False, right = False\<rparr>"

definition join :: "(nat \<Rightarrow> real) \<Rightarrow> nat \<Rightarrow> string \<Rightarrow> join_data \<Rightarrow> game \<Rightarrow> game \<times> nat" where
  "join rnd k socket_id data s =
     (let sw = or_default (join_screenWidth data) DEFAULT_WIDTH;
          sh = or_default (join_screenHeight data) DEFAULT_HEIGHT;
          isFirstPlayer = (length (map fst (players s)) = 0)
      in case findSafeSpawn rnd k (players s) (currentMap s) socket_id sw sh of
           (sx, sy, k1) \<Rightarrow>
             (case randomColor rnd k1 of
                (c, k2) \<Rightarrow>
                  (s\<lparr>players := AList.update socket_id
                       \<lparr>pid = socket_id, name = join_name data, px = sx, py = sy, color = c,
                        isTagger = isFirstPlayer, frozen = False, frozenUntil = 0,
                        input = no_input, screenWidth = sw, screenHeight = sh,
                        map_name = maps_name (currentMap s),
                        walls = getWallsForPlayer (players s) (currentMap s) socket_id\<rparr>
                       (players s)\<rparr>, k2)))"

definition screenSize :: "(nat \<Rightarrow> real) \<Rightarrow> nat \<Rightarrow> string \<Rightarrow> real \<Rightarrow> real \<Rightarrow> game \<Rightarrow> game \<times> nat" where
  "screenSize rnd k socket_id width height s =
     (case map_of (players s) socket_id of
        None \<Rightarrow> (s, k)
      | Some p \<Rightarrow>
          (let p1 = p\<lparr>screenWidth := width, screenHeight := height\<rparr>;
               ps1 = AList.update socket_id p1 (players s)
           in if checkWallCollision ps1 (currentMap s) (px p1) (py p1) socket_id
              then (case findSafeSpawn rnd k ps1 (currentMap s) socket_id width height of
                      (sx, sy, k1) \<Rightarrow>
                        (s\<lparr>players := AList.update socket_id (p1\<lparr>px := sx, py := sy\<rparr>) ps1\<rparr>, k1))
              else (s\<lparr>players := ps1\<rparr>, k)))"

definition set_input :: "string \<Rightarrow> input \<Rightarrow> game \<Rightarrow> game" where
  "set_input socket_id inp s =
     (case map_of (players s) socket_id of
        None \<Rightarrow> s
      | Some p \<Rightarrow> s\<lparr>players := AList.update socket_id (p\<lparr>input := inp\<rparr>) (players s)\<rparr>)"

definition disconnect :: "(nat \<Rightarrow> real) \<Rightarrow> nat \<Rightarrow> string \<Rightarrow> game \<Rightarrow> game \<times> nat" where
  "disconnect rnd k socket_id s =
     (case map_of (players s) socket_id of
        None \<Rightarrow> (s, k)
      | Some p \<Rightarrow>
          if isTagger p
          then (let ps1 = AList.delete socket_id (players s);
                    playerIds = map fst ps1
                in if length playerIds > 0
                   then (let newTagger = playerIds ! random_index rnd k (length playerIds)
                         in (s\<lparr>players := AList.map_entry newTagger
                                (\<lambda>q. q\<lparr>isTagger := True, frozen := False\<rparr>) ps1\<rparr>, k + 1))
                   else (s\<lparr>players := ps1\<rparr>, k))
          else (s\<lparr>players := AList.delete socket_id (players s)\<rparr>, k))"

subsection \<open>The game loop\<close>

definition move_candidate :: "player \<Rightarrow> real \<times> real" where
  \<comment> \<open>speed, input application and boundary clamp of one player\<close>
  "move_candidate p =
     (let speed = (if isTagger p then TAGGER_SPEED else NORMAL_SPEED);
          newX = px p;
          newY = py p;
          newY = (if up (input p) then newY - speed else newY);
          newY = (if down (input p) then newY + speed else newY);
          newX = (if left (input p) then newX - speed else newX);
          newX = (if right (input p) then newX + speed else newX);
          newX = max PLAYER_SIZE (min (screenWidth p - PLAYER_SIZE) newX);
          newY = max PLAYER_SIZE (min (screenHeight p - PLAYER_SIZE) newY)
      in (newX, newY))"

definition move_player :: "registry \<Rightarrow> map_key \<Rightarrow> string \<Rightarrow> player \<Rightarrow> player" where
  \<comment> \<open>the wall check: \<open>p\<close> is the object stored under its id \<open>key\<close> in \<open>ps\<close>\<close>
  "move_player ps cur key p =
     (case move_candidate p of
        (newX, newY) \<Rightarrow>
          if \<not> checkWallCollision ps cur newX newY key then p\<lparr>px := newX, py := newY\<rparr> else p)"

definition update_player :: "map_key \<Rightarrow> int \<Rightarrow> string \<Rightarrow> registry \<Rightarrow> error + registry" where
  \<comment> \<open>one iteration of the first loop of the tick\<close>
  "update_player cur now key ps =
     (case map_of ps key of
        None \<Rightarrow> Inr ps
      | Some p0 \<Rightarrow>
          (let p1 = (if frozen p0 \<and> now > frozenUntil p0 then p0\<lparr>frozen := False\<rparr> else p0);
               ps1 = AList.update key p1 ps
           in if frozen p1 then Inr ps1
              else
                (let p2 = move_player ps1 cur key p1;
                     ps2 = AList.update key p2 ps1
                 in case checkPortalCollision ps2 cur p2 of
                      Inl e \<Rightarrow> Inl e
                    | Inr p3 \<Rightarrow>
                        (let ps3 = AList.update key p3 ps2;
                             p4 = p3\<lparr>map_name := maps_name cur,
                                     walls := getWallsForPlayer ps3 cur key\<rparr>
                         in Inr (AList.update key p4 ps3)))))"

fun update_loop :: "map_key \<Rightarrow> int \<Rightarrow> string list \<Rightarrow> registry \<Rightarrow> error + registry" where
  "update_loop cur now [] ps = Inr ps"
| "update_loop cur now (key # ids) ps =
     (case update_player cur now key ps of
        Inl e \<Rightarrow> Inl e
      | Inr ps' \<Rightarrow> update_loop cur now ids ps')"

text \<open>
  Tag detection. The inner loop runs over the ids still to scan and stops at the first
  tag. Each tag is recorded as the pair (id of the tagger, id of the tagged player): the
  trace of the \<open>console.log\<close> in the branch, which prints the two names.
\<close>

type_synonym tag_event = "string \<times> string"

fun tag_scan :: "int \<Rightarrow> string \<Rightarrow> string list \<Rightarrow> registry \<Rightarrow> registry \<times> tag_event list" where
  "tag_scan now key [] ps = (ps, [])"
| "tag_scan now key (otherId # rest) ps =
     (if key = otherId then tag_scan now key rest ps
      else case (map_of ps key, map_of ps otherId) of
             (Some tagger, Some other) \<Rightarrow>
               if \<not> isTagger other \<and> \<not> frozen other \<and> checkCollision tagger other
               then (AList.update otherId (other\<lparr>isTagger := True, frozen := False\<rparr>)
                       (AList.update key
                          (tagger\<lparr>isTagger := False, frozen := True,
                                  frozenUntil := now + FREEZE_TIME\<rparr>) ps),
                     [(key, otherId)])
               else tag_scan now key rest ps
           | _ \<Rightarrow> tag_scan now key rest ps)"

definition tag_player :: "int \<Rightarrow> string \<Rightarrow> registry \<Rightarrow> registry \<times> tag_event list" where
  \<comment> \<open>one iteration of the outer loop of tag detection\<close>
  "tag_player now key ps =
     (case map_of ps key of
        None \<Rightarrow> (ps, [])
      | Some tagger \<Rightarrow>
          if \<not> isTagger tagger \<or> frozen tagger then (ps, [])
          else tag_scan now key (map fst ps) ps)"

fun tag_loop :: "int \<Rightarrow> string list \<Rightarrow> registry \<Rightarrow> registry \<times> tag_event list" where
  "tag_loop now [] ps = (ps, [])"
| "tag_loop now (key # ids) ps =
     (case tag_player now key ps of
        (ps1, ev1) \<Rightarrow> (case tag_loop now ids ps1 of (ps2, ev2) \<Rightarrow> (ps2, ev1 @ ev2)))"

definition tag_detection :: "int \<Rightarrow> registry \<Rightarrow> registry \<times> tag_event list" where
  "tag_detection now ps = tag_loop now (map fst ps) ps"

definition tick :: "int \<Rightarrow> game \<Rightarrow> error + game \<times> tag_event list" where
  "tick now s =
     (case update_loop (currentMap s) now (map fst (players s)) (players s) of
        Inl e \<Rightarrow> Inl e
      | Inr ps1 \<Rightarrow> (case tag_detection now ps1 of (ps2, evs) \<Rightarrow> Inr (s\<lparr>players := ps2\<rparr>, evs)))"

subsection \<open>Map rotation\<close>

text \<open>
  The \<open>do ... while (newMap === currentMap)\<close> loop has no bound: it returns only when the
  random source yields another map, so it is a partial function and not returning is
  \<open>None\<close>.
\<close>

partial_function (option) pick_new_map :: "(nat \<Rightarrow> real) \<Rightarrow> nat \<Rightarrow> map_key \<Rightarrow> (map_key \<times> nat) option" where
  "pick_new_map rnd k cur =
     (let newMap = mapKeys ! random_index rnd k (length mapKeys)
      in if newMap = cur then pick_new_map rnd (k + 1) cur else Some (newMap, k + 1))"

fun respawn_loop :: "(nat \<Rightarrow> real) \<Rightarrow> nat \<Rightarrow> map_key \<Rightarrow> string list \<Rightarrow> registry \<Rightarrow> registry \<times> nat" where
  "respawn_loop rnd k cur [] ps = (ps, k)"
| "respawn_loop rnd k cur (key # ids) ps =
     (case map_of ps key of
        None \<Rightarrow> respawn_loop rnd k cur ids ps
      | Some p \<Rightarrow>
          (case findSafeSpawn rnd k ps cur key (screenWidth p) (screenHeight p) of
             (sx, sy, k1) \<Rightarrow>
               respawn_loop rnd k1 cur ids (AList.update key (p\<lparr>px := sx, py := sy\<rparr>) ps)))"

definition rotate_map :: "(nat \<Rightarrow> real) \<Rightarrow> nat \<Rightarrow> game \<Rightarrow> (game \<times> nat) option" where
  "rotate_map rnd k s =
     (case pick_new_map rnd k (currentMap s) of
        None \<Rightarrow> None
      | Some (newMap, k1) \<Rightarrow>
          (case respawn_loop rnd k1 newMap (map fst (players s)) (players s) of
             (ps1, k2) \<Rightarrow> Some (\<lparr>players = ps1, currentMap = newMap\<rparr>, k2)))"

section \<open>Notions of the specification\<close>

text \<open>
  The scaled delta in the words of the specification: per axis, the difference of the
  positions as fractions of each player's own viewport, times the smaller of the two
  viewport dimensions.
\<close>

definition scaled_delta :: "player \<Rightarrow> player \<Rightarrow> real \<times> real" where
  "scaled_delta p1 p2 =
     ((px p1 / screenWidth p1 - px p2 / screenWidth p2) * min (screenWidth p1) (screenWidth p2),
      (py p1 / screenHeight p1 - py p2 / screenHeight p2) * min (screenHeight p1) (screenHeight p2))"

text \<open>Inside a portal: the distance to its centre is strictly less than its radius.\<close>

definition inside_portal :: "real \<Rightarrow> real \<Rightarrow> portal \<Rightarrow> bool" where
  "inside_portal x y portal \<longleftrightarrow>
     sqrt ((x - portal_x portal)\<^sup>2 + (y - portal_y portal)\<^sup>2) < radius portal"

text \<open>
  Movement in the words of the specification: each pressed key contributes its own
  displacement, and the sum is clamped per axis.
\<close>

definition axis_delta :: "real \<Rightarrow> bool \<Rightarrow> bool \<Rightarrow> real" where
  "axis_delta speed neg pos = (if pos then speed else 0) - (if neg then speed else 0)"

definition clamp_axis :: "real \<Rightarrow> real \<Rightarrow> real" where
  "clamp_axis d v = max PLAYER_SIZE (min (d - PLAYER_SIZE) v)"

definition spec_candidate :: "player \<Rightarrow> real \<times> real" where
  "spec_candidate p =
     (let speed = (if isTagger p then 3.75 else 3)
      in (clamp_axis (screenWidth p) (px p + axis_delta speed (left (input p)) (right (input p))),
          clamp_axis (screenHeight p) (py p + axis_delta speed (up (input p)) (down (input p)))))"

text \<open>
  A candidate of tag detection: an entry of the registry, other than the tagger's own
  (stored under \<open>key\<close>), that is not a tagger, not frozen, and touching the tagger.
\<close>

definition tag_target :: "string \<Rightarrow> player \<Rightarrow> string \<times> player \<Rightarrow> bool" where
  "tag_target key tagger e \<longleftrightarrow>
     fst e \<noteq> key \<and> \<not> isTagger (snd e) \<and> \<not> frozen (snd e) \<and> checkCollision tagger (snd e)"

text \<open>
  A player \<open>p\<close> re-placed as \<open>p'\<close> on the map \<open>cur\<close>: only the position changed, and
  it is what \<open>findSafeSpawn\<close> returns for this player's viewport from some point \<open>kp\<close> of
  the random source: free of the walls of \<open>cur\<close> at that viewport, or the viewport
  centre after 200 draws (100 samples of two draws).
\<close>

definition respawned :: "(nat \<Rightarrow> real) \<Rightarrow> map_key \<Rightarrow> string \<Rightarrow> player \<Rightarrow> player \<Rightarrow> bool" where
  "respawned rnd cur key p p' \<longleftrightarrow>
     p' = p\<lparr>px := px p', py := py p'\<rparr> \<and>
     (\<exists>kp kq. findSafeSpawn rnd kp [(key, p)] cur key (screenWidth p) (screenHeight p)
                 = (px p', py p', kq)
        \<and> (if wall_loop (px p') (py p') (getWalls cur (screenWidth p) (screenHeight p))
           then (px p', py p') = (screenWidth p / 2, screenHeight p / 2) \<and> kq = kp + 200
           else True))"

text \<open>
  The tagger invariant of the specification: a registry that is not empty has exactly
  one player with \<open>isTagger\<close>.
\<close>

definition taggers :: "registry \<Rightarrow> nat" where
  "taggers ps = length (filter (\<lambda>e. isTagger (snd e)) ps)"

definition one_tagger :: "registry \<Rightarrow> bool" where
  "one_tagger ps \<longleftrightarrow> ps = [] \<or> taggers ps = 1"

text \<open>Views of a registry, in its order: the roles and the positions.\<close>

definition role_flags :: "registry \<Rightarrow> (string \<times> bool \<times> bool \<times> int) list" where
  \<comment> \<open>id, \<open>isTagger\<close>, \<open>frozen\<close> and \<open>frozenUntil\<close> of every player\<close>
  "role_flags ps = map (\<lambda>(k, p). (k, isTagger p, frozen p, frozenUntil p)) ps"

definition positions :: "registry \<Rightarrow> (string \<times> real \<times> real) list" where
  \<comment> \<open>id and position of every player\<close>
  "positions ps = map (\<lambda>(k, p). (k, px p, py p)) ps"

definition after_tick :: "int \<Rightarrow> game \<Rightarrow> game" where
  \<comment> \<open>the state a tick leaves (a tick on the catalog's maps never throws)\<close>
  "after_tick now s = (case tick now s of Inr (s', evs) \<Rightarrow> s' | Inl e \<Rightarrow> s)"

text \<open>
  \<open>p'\<close> differs from \<open>p\<close> at most in the role fields \<open>isTagger\<close>, \<open>frozen\<close> and
  \<open>frozenUntil\<close>: what tag detection may change of a player.
\<close>

definition role_change :: "player \<Rightarrow> player \<Rightarrow> bool" where
  "role_change p p' \<longleftrightarrow>
     p' = p\<lparr>isTagger := isTagger p', frozen := frozen p', frozenUntil := frozenUntil p'\<rparr>"

text \<open>
  The scaled delta and its norm as the program computes them, every operation rounded.
\<close>

definition rounded_delta :: "player \<Rightarrow> player \<Rightarrow> real \<times> real" where
  "rounded_delta p1 p2 =
     (fl (fl (fl (px p1 / screenWidth p1) - fl (px p2 / screenWidth p2))
            * min (screenWidth p1) (screenWidth p2)),
      fl (fl (fl (py p1 / screenHeight p1) - fl (py p2 / screenHeight p2))
            * min (screenHeight p1) (screenHeight p2)))"

definition rounded_norm :: "real \<times> real \<Rightarrow> real" where
  "rounded_norm d = fl (sqrt (fl (fl (fst d * fst d) + fl (snd d * snd d))))"

text \<open>
  Standing on a portal: the registry has distinct ids, the active map has portals, and
  the player stored under \<open>key\<close> (with that id) is in a viewport at least 87.5 wide and
  high, on the exact centre of the \<open>i\<close>-th portal of the list scaled to that viewport.
\<close>

definition on_portal :: "game \<Rightarrow> string \<Rightarrow> nat \<Rightarrow> bool" where
  "on_portal s key i \<longleftrightarrow>
     distinct (map fst (players s)) \<and>
     (case map_of (players s) key of
        None \<Rightarrow> False
      | Some p \<Rightarrow>
          (case getPortals (currentMap s) of
             None \<Rightarrow> False
           | Some gp \<Rightarrow>
               pid p = key \<and> 175 / 2 \<le> screenWidth p \<and> 175 / 2 \<le> screenHeight p
             \<and> i < length (gp (screenWidth p) (screenHeight p))
             \<and> px p = portal_x (gp (screenWidth p) (screenHeight p) ! i)
             \<and> py p = portal_y (gp (screenWidth p) (screenHeight p) ! i)))"

text \<open>The player stored under \<open>key\<close> is frozen and the tick at \<open>now\<close> does not thaw it.\<close>

definition stays_frozen :: "int \<Rightarrow> game \<Rightarrow> string \<Rightarrow> bool" where
  "stays_frozen now s key \<longleftrightarrow>
     (case map_of (players s) key of None \<Rightarrow> False | Some p \<Rightarrow> frozen p \<and> now \<le> frozenUntil p)"

text \<open>
  A run of the server over ticks (each at its timestamp) and \<open>input\<close> messages (each from
  a socket), with no other event in between.
\<close>

datatype event = Tick int | Input string input

fun step :: "event \<Rightarrow> game \<Rightarrow> game" where
  "step (Tick now) s = after_tick now s"
| "step (Input socket_id inp) s = set_input socket_id inp s"

definition run :: "event list \<Rightarrow> game \<Rightarrow> game" where
  "run es s = fold step es s"

text \<open>
  Entering a portal in the tick at \<open>now\<close>: the registry has distinct ids, the active map
  has portals, the player stored under \<open>key\<close> (with that id, in a viewport at least 87.5
  wide and high) is not kept frozen by this tick, and the first portal that the moved
  player is inside of has the target index \<open>i\<close>.
\<close>

definition enters_portal :: "int \<Rightarrow> game \<Rightarrow> string \<Rightarrow> nat \<Rightarrow> bool" where
  "enters_portal now s key i \<longleftrightarrow>
     distinct (map fst (players s)) \<and>
     (case map_of (players s) key of
        None \<Rightarrow> False
      | Some p \<Rightarrow>
          (case getPortals (currentMap s) of
             None \<Rightarrow> False
           | Some gp \<Rightarrow>
               pid p = key \<and> 175 / 2 \<le> screenWidth p \<and> 175 / 2 \<le> screenHeight p
             \<and> \<not> (frozen p \<and> now \<le> frozenUntil p)
             \<and> (let m = move_player (players s) (currentMap s) key (p\<lparr>frozen := False\<rparr>)
                in case find (inside_portal (px m) (py m)) (gp (screenWidth p) (screenHeight p)) of
                     None \<Rightarrow> False
                   | Some entry \<Rightarrow> target entry = i)))"

section \<open>Concrete players, registries and random sources\<close>

definition mk_player :: "string \<Rightarrow> real \<Rightarrow> real \<Rightarrow> bool \<Rightarrow> bool \<Rightarrow> int \<Rightarrow> real \<Rightarrow> real \<Rightarrow> player" where
  \<comment> \<open>id, position, \<open>isTagger\<close>, \<open>frozen\<close>, \<open>frozenUntil\<close>, viewport\<close>
  "mk_player i a b t f u w h =
     \<lparr>pid = i, name = i, px = a, py = b, color = ''#FF6B6B'', isTagger = t, frozen = f,
      frozenUntil = u, input = no_input, screenWidth = w, screenHeight = h,
      map_name = [], walls = []\<rparr>"

definition walker :: player where
  \<comment> \<open>a player who holds down and right\<close>
  "walker = (mk_player ''a'' 100 100 False False 0 1920 1080)
              \<lparr>input := \<lparr>up = False, down = True, left = False, right = True\<rparr>\<rparr>"

definition walker_game :: game where
  \<comment> \<open>the walker and a tagger far from it, on the plus map\<close>
  "walker_game = \<lparr>players = [(''a'', walker), (''w'', mk_player ''w'' 960 300 True False 0 1920 1080)],
                  currentMap = MapPlus\<rparr>"

definition icy :: player where
  \<comment> \<open>a player frozen until 5000\<close>
  "icy = mk_player ''a'' 100 100 False True 5000 1920 1080"

definition thawing :: player where
  \<comment> \<open>a player frozen until 5000 who holds the right key\<close>
  "thawing = icy\<lparr>input := \<lparr>up = False, down = False, left = False, right = True\<rparr>\<rparr>"

definition runner :: player where
  \<comment> \<open>a tagger on the centre of the bottom-right portal who holds up and left\<close>
  "runner = (mk_player ''a'' 1440 810 True False 0 1920 1080)
              \<lparr>input := \<lparr>up = True, down = False, left = True, right = False\<rparr>\<rparr>"

definition runner_game :: game where
  \<comment> \<open>the runner alone on the teleport map\<close>
  "runner_game = \<lparr>players = [(''a'', runner)], currentMap = MapTeleport\<rparr>"

definition small_game :: game where
  \<comment> \<open>on the teleport map, a tagger in a viewport of 80 by 80, on the centre of the
      bottom-right portal, who holds up\<close>
  "small_game = \<lparr>players =
        [(''a'', (mk_player ''a'' 60 60 True False 0 80 80)
                   \<lparr>input := \<lparr>up = True, down = False, left = False, right = False\<rparr>\<rparr>)],
      currentMap = MapTeleport\<rparr>"

definition trio :: registry where
  \<comment> \<open>three players in a row, 10 apart, the first one the tagger\<close>
  "trio = [(''a'', mk_player ''a'' 500 300 True False 0 1920 1080),
           (''b'', mk_player ''b'' 510 300 False False 0 1920 1080),
           (''c'', mk_player ''c'' 520 300 False False 0 1920 1080)]"

definition trio_game :: game where
  "trio_game = \<lparr>players = trio, currentMap = MapPlus\<rparr>"

definition empty_game :: game where
  \<comment> \<open>the state at start-up\<close>
  "empty_game = \<lparr>players = [], currentMap = MapPlus\<rparr>"

definition solo_game :: game where
  "solo_game = \<lparr>players = [(''a'', mk_player ''a'' 960 300 True False 0 1920 1080)],
                currentMap = MapPlus\<rparr>"

definition duo_game :: game where
  \<comment> \<open>on the teleport map, a tagger and another player, both inside the top-left portal\<close>
  "duo_game = \<lparr>players = [(''a'', mk_player ''a'' 470 280 True False 0 1920 1080),
                           (''b'', mk_player ''b'' 490 260 False False 0 1920 1080)],
               currentMap = MapTeleport\<rparr>"

definition sleeper_game :: game where
  \<comment> \<open>on the teleport map, a player frozen until 5000 inside the top-left portal, and the tagger\<close>
  "sleeper_game = \<lparr>players =
        [(''a'', (mk_player ''a'' 470 280 False True 5000 1920 1080)
                   \<lparr>map_name := ''Teleport'', walls := getWalls MapTeleport 1920 1080\<rparr>),
         (''b'', (mk_player ''b'' 1200 800 True False 0 1920 1080)
                   \<lparr>map_name := ''Teleport'', walls := getWalls MapTeleport 1920 1080\<rparr>)],
      currentMap = MapTeleport\<rparr>"

definition duo_after1 :: game where
  "duo_after1 = \<lparr>players =
        [(''a'', (mk_player ''a'' 1440 810 False True 6000 1920 1080)
                   \<lparr>map_name := ''Teleport'', walls := getWalls MapTeleport 1920 1080\<rparr>),
         (''b'', (mk_player ''b'' 1440 810 True False 0 1920 1080)
                   \<lparr>map_name := ''Teleport'', walls := getWalls MapTeleport 1920 1080\<rparr>)],
      currentMap = MapTeleport\<rparr>"

definition duo_after2 :: game where
  "duo_after2 = \<lparr>players =
        [(''a'', (mk_player ''a'' 1440 810 False True 6000 1920 1080)
                   \<lparr>map_name := ''Teleport'', walls := getWalls MapTeleport 1920 1080\<rparr>),
         (''b'', (mk_player ''b'' 480 270 True False 0 1920 1080)
                   \<lparr>map_name := ''Teleport'', walls := getWalls MapTeleport 1920 1080\<rparr>)],
      currentMap = MapTeleport\<rparr>"

definition hello :: join_data where
  "hello = \<lparr>join_name = ''ann'', join_screenWidth = Some 1920, join_screenHeight = Some 1080\<rparr>"

definition unlucky :: "nat \<Rightarrow> real" where
  \<comment> \<open>a random source whose first draw is 0.25 and whose later draws are 0.5\<close>
  "unlucky k = (if k = 0 then 1 / 4 else 1 / 2)"

definition lucky :: "nat \<Rightarrow> real" where
  \<comment> \<open>a random source whose first draw is 0.25 and whose later draws are 0.125\<close>
  "lucky k = (if k = 0 then 1 / 4 else 1 / 8)"

section \<open>Basic facts\<close>

lemma sqrt_less_iff_sq: "0 \<le> r \<Longrightarrow> sqrt a < r \<longleftrightarrow> a < r * r"
proof -
  assume r: "0 \<le> r"
  then have "sqrt (r * r) = r" by simp
  then have "sqrt a < r \<longleftrightarrow> sqrt a < sqrt (r * r)" by simp
  also have "\<dots> \<longleftrightarrow> a < r * r" by (rule real_sqrt_less_iff)
  finally show ?thesis .
qed

lemma unfreeze_idle: "\<not> frozen p \<Longrightarrow> p\<lparr>frozen := False\<rparr> = p"
  by (cases p) simp

lemma find_in_set: "find P xs = Some e \<Longrightarrow> e \<in> set xs"
  by (induction xs) (auto split: if_splits)

lemma getWallsForPlayer_update [simp]:
  "getWallsForPlayer (AList.update key p ps) cur key = getWalls cur (screenWidth p) (screenHeight p)"
  by (simp add: getWallsForPlayer_def update_conv')

lemma checkWallCollision_own:
  "map_of ps key = Some p \<Longrightarrow>
   checkWallCollision ps cur x y key = wall_loop x y (getWalls cur (screenWidth p) (screenHeight p))"
  by (simp add: checkWallCollision_def getWallsForPlayer_def)

subsection \<open>The portal check\<close>

lemma portal_loop_find:
  "portal_loop all rest x y =
     (case find (inside_portal x y) rest of
        None \<Rightarrow> Inr None
      | Some e \<Rightarrow>
          if target e < length all
          then Inr (Some (portal_x (all ! target e), portal_y (all ! target e)))
          else Inl TypeError)"
  by (induction rest) (simp_all add: inside_portal_def Let_def power2_eq_square)

lemma catalog_targets:
  "getPortals cur = Some gp \<Longrightarrow> e \<in> set (gp w h) \<Longrightarrow> target e < length (gp w h)"
  by (cases cur) (auto simp: mk_portal_def)

lemma catalog_target_elsewhere:
  assumes "getPortals cur = Some gp" "e \<in> set (gp w h)" "w \<noteq> 0 \<or> h \<noteq> 0"
  shows "(portal_x (gp w h ! target e), portal_y (gp w h ! target e)) \<noteq> (portal_x e, portal_y e)"
  using assms by (cases cur) (auto simp: mk_portal_def)

lemma checkPortalCollision_find:
  assumes "map_of ps (pid player) = Some q" and "getPortals cur = Some gp"
  shows "checkPortalCollision ps cur player =
     (case find (inside_portal (px player) (py player)) (gp (screenWidth q) (screenHeight q)) of
        None \<Rightarrow> Inr player
      | Some entry \<Rightarrow>
          Inr (player\<lparr>px := portal_x (gp (screenWidth q) (screenHeight q) ! target entry),
                      py := portal_y (gp (screenWidth q) (screenHeight q) ! target entry)\<rparr>))"
proof (cases "find (inside_portal (px player) (py player)) (gp (screenWidth q) (screenHeight q))")
  case None
  then show ?thesis using assms
    by (simp add: checkPortalCollision_def getPortalsForPlayer_def portal_loop_find)
next
  case (Some entry)
  then have "entry \<in> set (gp (screenWidth q) (screenHeight q))" by (rule find_in_set)
  then have "target entry < length (gp (screenWidth q) (screenHeight q))"
    using catalog_targets [OF assms(2)] by simp
  then show ?thesis using Some assms
    by (simp add: checkPortalCollision_def getPortalsForPlayer_def portal_loop_find Let_def)
qed

lemma checkPortalCollision_total: "\<exists>p'. checkPortalCollision ps cur player = Inr p'"
proof (cases "getPortals cur")
  case None
  then show ?thesis by (simp add: checkPortalCollision_def)
next
  case (Some gp)
  show ?thesis
  proof (cases "map_of ps (pid player)")
    case None
    then show ?thesis using Some
      by (simp add: checkPortalCollision_def getPortalsForPlayer_def)
  next
    case (Some q)
    then show ?thesis
      using checkPortalCollision_find [OF Some \<open>getPortals cur = Some gp\<close>]
      by (simp split: option.splits)
  qed
qed

lemma checkPortalCollision_fields:
  "checkPortalCollision ps cur p = Inr p' \<Longrightarrow> p' = p\<lparr>px := px p', py := py p'\<rparr>"
  by (auto simp: checkPortalCollision_def Let_def split: option.splits sum.splits)

lemma checkPortalCollision_cong:
  "getPortalsForPlayer ps cur (pid p) = getPortalsForPlayer ps' cur (pid p)
   \<Longrightarrow> checkPortalCollision ps cur p = checkPortalCollision ps' cur p"
  by (simp add: checkPortalCollision_def Let_def split: option.splits)

subsection \<open>Movement\<close>

lemma move_candidate_spec: "move_candidate p = spec_candidate p"
  by (simp add: move_candidate_def spec_candidate_def axis_delta_def clamp_axis_def Let_def
      TAGGER_SPEED_def NORMAL_SPEED_def)

lemma clamp_axis_range:
  "2 * PLAYER_SIZE \<le> d \<Longrightarrow> PLAYER_SIZE \<le> clamp_axis d v \<and> clamp_axis d v \<le> d - PLAYER_SIZE"
  by (simp add: clamp_axis_def PLAYER_SIZE_def)

lemma move_player_cong:
  "map_of ps key = Some q \<Longrightarrow> map_of ps' key = Some q' \<Longrightarrow> screenWidth q = screenWidth q'
   \<Longrightarrow> screenHeight q = screenHeight q' \<Longrightarrow> move_player ps cur key p = move_player ps' cur key p"
  by (simp add: move_player_def checkWallCollision_own)

lemma move_player_pid [simp]: "pid (move_player ps cur key p) = pid p"
  and move_player_sw [simp]: "screenWidth (move_player ps cur key p) = screenWidth p"
  and move_player_sh [simp]: "screenHeight (move_player ps cur key p) = screenHeight p"
  and move_player_frozen [simp]: "frozen (move_player ps cur key p) = frozen p"
  and move_player_isTagger [simp]: "isTagger (move_player ps cur key p) = isTagger p"
  by (simp_all add: move_player_def split: prod.splits)

subsection \<open>One iteration of the update loop\<close>

lemma update_player_frozen:
  assumes "map_of ps key = Some p0" "frozen p0" "now \<le> frozenUntil p0"
  shows "update_player cur now key ps = Inr ps"
  using assms by (simp add: update_player_def update_triv)

lemma update_player_active:
  assumes "map_of ps key = Some p0" "\<not> frozen p0 \<or> now > frozenUntil p0" "pid p0 = key"
  shows "update_player cur now key ps =
     (case checkPortalCollision ps cur (move_player ps cur key (p0\<lparr>frozen := False\<rparr>)) of
        Inl e \<Rightarrow> Inl e
      | Inr p3 \<Rightarrow> Inr (AList.update key
           (p3\<lparr>map_name := maps_name cur,
               walls := getWalls cur (screenWidth p0) (screenHeight p0)\<rparr>) ps))"
proof -
  let ?p1 = "p0\<lparr>frozen := False\<rparr>"
  let ?m = "move_player ps cur key ?p1"
  have p1: "(if frozen p0 \<and> now > frozenUntil p0 then p0\<lparr>frozen := False\<rparr> else p0) = ?p1"
    using assms(2) by (auto simp: unfreeze_idle)
  have mv: "move_player (AList.update key ?p1 ps) cur key ?p1 = ?m"
    by (rule move_player_cong [where q = ?p1 and q' = p0]) (simp_all add: update_conv' assms)
  have pc: "checkPortalCollision (AList.update key ?m (AList.update key ?p1 ps)) cur ?m
              = checkPortalCollision ps cur ?m"
    by (rule checkPortalCollision_cong)
       (simp add: assms getPortalsForPlayer_def update_conv' split: option.splits)
  have dims: "screenWidth p3 = screenWidth p0 \<and> screenHeight p3 = screenHeight p0"
    if "checkPortalCollision ps cur ?m = Inr p3" for p3
  proof -
    have "p3 = ?m\<lparr>px := px p3, py := py p3\<rparr>"
      using that by (rule checkPortalCollision_fields)
    then have "screenWidth p3 = screenWidth ?m \<and> screenHeight p3 = screenHeight ?m"
      by (metis player.select_convs(10,11) player.surjective player.update_convs(3,4))
    then show ?thesis by simp
  qed
  have "update_player cur now key ps =
     (case checkPortalCollision ps cur ?m of
        Inl e \<Rightarrow> Inl e
      | Inr p3 \<Rightarrow> Inr (AList.update key
           (p3\<lparr>map_name := maps_name cur,
               walls := getWalls cur (screenWidth p3) (screenHeight p3)\<rparr>) ps))"
    unfolding update_player_def
    by (simp only: assms(1) option.case p1 Let_def mv pc)
       (simp split: sum.splits)
  then show ?thesis using dims by (simp split: sum.splits)
qed

subsection \<open>Rounding\<close>

lemma fl_zero [simp]: "fl 0 = 0"
  by (simp add: fl_def)

lemma round_half_even_near: "\<bar>q - of_int n\<bar> < 1 / 2 \<Longrightarrow> round_half_even q = n"
proof -
  assume a: "\<bar>q - of_int n\<bar> < 1 / 2"
  show ?thesis
  proof (cases "of_int n \<le> q")
    case True
    then have "\<lfloor>q\<rfloor> = n" using a by (intro floor_unique) auto
    then show ?thesis using a True by (simp add: round_half_even_def Let_def)
  next
    case False
    then have "\<lfloor>q\<rfloor> = n - 1" using a by (intro floor_unique) auto
    then show ?thesis using a False by (simp add: round_half_even_def Let_def)
  qed
qed

text \<open>
  Evaluating \<open>fl\<close>: a number within half a unit of the mantissa \<open>n\<close>, in the binade of
  \<open>n\<close>, rounds to \<open>n\<close> units.
\<close>

lemma fl_near:
  assumes "2 ^ 52 * 2 powr of_int k \<le> \<bar>x\<bar>" "\<bar>x\<bar> < 2 ^ 53 * 2 powr of_int k"
    and "\<bar>x / 2 powr of_int k - of_int n\<bar> < 1 / 2"
  shows "fl x = of_int n * 2 powr of_int k"
proof -
  have "0 < (2::real) ^ 52 * 2 powr of_int k" by simp
  then have pos: "0 < \<bar>x\<bar>" using assms(1) by linarith
  then have nz: "x \<noteq> 0" by auto
  have p52: "2 powr (of_int k + 52) = (2::real) ^ 52 * 2 powr of_int k"
    by (simp add: powr_add)
  have p53: "2 powr (of_int k + 53) = (2::real) ^ 53 * 2 powr of_int k"
    by (simp add: powr_add)
  have "of_int k + 52 \<le> log 2 \<bar>x\<bar>"
    using assms(1) pos le_log_iff [of 2 "\<bar>x\<bar>" "of_int k + 52"] by (simp only: p52)
  moreover have "log 2 \<bar>x\<bar> < of_int k + 53"
    using assms(2) pos log_less_iff [of 2 "\<bar>x\<bar>" "of_int k + 53"] by (simp only: p53)
  ultimately have e: "\<lfloor>log 2 \<bar>x\<bar>\<rfloor> = k + 52" by (intro floor_unique) auto
  have "round_half_even (x / 2 powr of_int k) = n"
    using assms(3) by (rule round_half_even_near)
  then show ?thesis using nz e by (simp add: fl_def Let_def)
qed

lemma fl_sqrt_near:
  assumes "2 ^ 52 < n" "n < 2 ^ 53 - 1"
    and "((of_int n - 1 / 2) * 2 powr of_int k)\<^sup>2 < s"
    and "s < ((of_int n + 1 / 2) * 2 powr of_int k)\<^sup>2"
  shows "fl (sqrt s) = of_int n * 2 powr of_int k"
proof -
  let ?u = "2 powr of_int k :: real"
  have u: "0 < ?u" by simp
  have "(of_int (2 ^ 52) :: real) < of_int n" "(of_int n :: real) < of_int (2 ^ 53 - 1)"
    using assms(1,2) by (simp_all only: of_int_less_iff)
  then have n: "(2::real) ^ 52 < of_int n" "of_int n < (2::real) ^ 53 - 1" by simp_all
  have lo0: "0 \<le> (of_int n - 1 / 2) * ?u" using n by simp
  have hi0: "0 \<le> (of_int n + 1 / 2) * ?u" using n by simp
  have lo: "(of_int n - 1 / 2) * ?u < sqrt s"
    using assms(3) by (rule real_less_rsqrt)
  have hi: "sqrt s < (of_int n + 1 / 2) * ?u"
    using hi0 assms(4) by (rule real_less_lsqrt)
  have spos: "0 < sqrt s" using lo lo0 by linarith
  have a1: "2 ^ 52 * ?u \<le> \<bar>sqrt s\<bar>"
  proof -
    have "2 ^ 52 * ?u \<le> (of_int n - 1 / 2) * ?u" using n u by (intro mult_right_mono) auto
    then show ?thesis using lo spos by linarith
  qed
  have a2: "\<bar>sqrt s\<bar> < 2 ^ 53 * ?u"
  proof -
    have "(of_int n + 1 / 2) * ?u \<le> 2 ^ 53 * ?u" using n u by (intro mult_right_mono) auto
    then show ?thesis using hi spos by linarith
  qed
  have a3: "\<bar>sqrt s / ?u - of_int n\<bar> < 1 / 2"
  proof -
    have "of_int n - 1 / 2 < sqrt s / ?u" using lo u by (simp add: pos_less_divide_eq)
    moreover have "sqrt s / ?u < of_int n + 1 / 2" using hi u by (simp add: pos_divide_less_eq)
    ultimately show ?thesis by linarith
  qed
  show ?thesis using a1 a2 a3 by (rule fl_near)
qed

lemma fl_down:
  assumes "2 ^ 52 / 2 ^ m \<le> \<bar>x\<bar>" "\<bar>x\<bar> < 2 ^ 53 / 2 ^ m"
    and "\<bar>x * 2 ^ m - of_int n\<bar> < 1 / 2"
  shows "fl x = of_int n / 2 ^ m"
proof -
  have u: "2 powr of_int (- int m) = 1 / (2::real) ^ m"
    by (simp add: powr_minus powr_realpow divide_inverse)
  show ?thesis
    using fl_near [of "- int m" x n] assms unfolding u by simp
qed

lemma fl_up:
  assumes "2 ^ 52 * 2 ^ m \<le> \<bar>x\<bar>" "\<bar>x\<bar> < 2 ^ 53 * 2 ^ m"
    and "\<bar>x / 2 ^ m - of_int n\<bar> < 1 / 2"
  shows "fl x = of_int n * 2 ^ m"
proof -
  have u: "2 powr of_int (int m) = (2::real) ^ m"
    by (simp add: powr_realpow)
  show ?thesis
    using fl_near [of "int m" x n] assms unfolding u by simp
qed

lemma fl_sqrt_down:
  assumes "2 ^ 52 < n" "n < 2 ^ 53 - 1"
    and "((of_int n - 1 / 2) / 2 ^ m)\<^sup>2 < s"
    and "s < ((of_int n + 1 / 2) / 2 ^ m)\<^sup>2"
  shows "fl (sqrt s) = of_int n / 2 ^ m"
proof -
  have u: "2 powr of_int (- int m) = 1 / (2::real) ^ m"
    by (simp add: powr_minus powr_realpow divide_inverse)
  show ?thesis
    using fl_sqrt_near [of n "- int m" s] assms unfolding u by simp
qed

subsection \<open>The proximity test step by step\<close>

lemma checkCollision_steps:
  assumes "screenWidth p1 \<noteq> 0" "screenHeight p1 \<noteq> 0" "screenWidth p2 \<noteq> 0" "screenHeight p2 \<noteq> 0"
    and "fl (px p1 / screenWidth p1) = a1" "fl (px p2 / screenWidth p2) = a2"
    and "fl (py p1 / screenHeight p1) = b1" "fl (py p2 / screenHeight p2) = b2"
    and "fl (a1 - a2) = sx" "fl (sx * min (screenWidth p1) (screenWidth p2)) = dx"
    and "fl (b1 - b2) = sy" "fl (sy * min (screenHeight p1) (screenHeight p2)) = dy"
    and "fl (dx * dx) = dxx" "fl (dy * dy) = dyy" "fl (dxx + dyy) = sm" "fl (sqrt sm) = dst"
  shows "checkCollision p1 p2 \<longleftrightarrow> dst < 30"
  unfolding checkCollision_def Let_def assms PLAYER_SIZE_def using assms(1-4) by simp

lemma touching_same_spot:
  assumes "screenWidth p1 \<noteq> 0" "screenHeight p1 \<noteq> 0" "screenWidth p2 \<noteq> 0" "screenHeight p2 \<noteq> 0"
    and "px p1 / screenWidth p1 = px p2 / screenWidth p2"
    and "py p1 / screenHeight p1 = py p2 / screenHeight p2"
  shows "checkCollision p1 p2"
  using assms by (simp add: checkCollision_def Let_def PLAYER_SIZE_def)

lemma touching_100_130:
  assumes "px p1 = 100" "py p1 = 300" "screenWidth p1 = 1920" "screenHeight p1 = 1080"
    and "px p2 = 130" "py p2 = 300" "screenWidth p2 = 1920" "screenHeight p2 = 1080"
  shows "checkCollision p1 p2"
proof -
  have d: "screenWidth p1 \<noteq> 0" "screenHeight p1 \<noteq> 0" "screenWidth p2 \<noteq> 0" "screenHeight p2 \<noteq> 0"
    unfolding assms by simp_all
  have a1: "fl (px p1 / screenWidth p1) = of_int 7505999378950827 / 2 ^ 57"
    unfolding assms by (rule fl_down) simp_all
  have a2: "fl (px p2 / screenWidth p2) = of_int 4878899596318037 / 2 ^ 56"
    unfolding assms by (rule fl_down) simp_all
  have b1: "fl (py p1 / screenHeight p1) = of_int 5003999585967218 / 2 ^ 54"
    unfolding assms by (rule fl_down) simp_all
  have b2: "fl (py p2 / screenHeight p2) = of_int 5003999585967218 / 2 ^ 54"
    unfolding assms by (rule fl_down) simp_all
  have sx: "fl (of_int 7505999378950827 / 2 ^ 57 - (of_int 4878899596318037 / 2 ^ 56)) = of_int (- 9007199254740988) / 2 ^ 59"
    by (rule fl_down) simp_all
  have dx: "fl ((of_int (- 9007199254740988) / 2 ^ 59) * min (screenWidth p1) (screenWidth p2)) = of_int (- 8444249301319676) / 2 ^ 48"
    unfolding assms by (rule fl_down) simp_all
  have sy: "fl (of_int 5003999585967218 / 2 ^ 54 - (of_int 5003999585967218 / 2 ^ 54)) = 0" by simp
  have dy: "fl ((0) * min (screenHeight p1) (screenHeight p2)) = 0" unfolding assms by simp
  have dxx: "fl ((of_int (- 8444249301319676) / 2 ^ 48) * (of_int (- 8444249301319676) / 2 ^ 48)) = of_int 7916483719987193 / 2 ^ 43"
    by (rule fl_down) simp_all
  have dyy: "fl ((0) * (0)) = 0" by simp
  have sm: "fl (of_int 7916483719987193 / 2 ^ 43 + 0) = of_int 7916483719987193 / 2 ^ 43"
    by (rule fl_down) simp_all
  have dist: "fl (sqrt (of_int 7916483719987193 / 2 ^ 43)) = of_int 8444249301319676 / 2 ^ 48"
    by (rule fl_sqrt_down) (simp_all add: power2_eq_square)
  show ?thesis
    using checkCollision_steps [OF d a1 a2 b1 b2 sx dx sy dy dxx dyy sm dist] by simp
qed

lemma touching_500_510:
  assumes "px p1 = 500" "py p1 = 300" "screenWidth p1 = 1920" "screenHeight p1 = 1080"
    and "px p2 = 510" "py p2 = 300" "screenWidth p2 = 1920" "screenHeight p2 = 1080"
  shows "checkCollision p1 p2"
proof -
  have d: "screenWidth p1 \<noteq> 0" "screenHeight p1 \<noteq> 0" "screenWidth p2 \<noteq> 0" "screenHeight p2 \<noteq> 0"
    unfolding assms by simp_all
  have a1: "fl (px p1 / screenWidth p1) = of_int 4691249611844267 / 2 ^ 54"
    unfolding assms by (rule fl_down) simp_all
  have a2: "fl (px p2 / screenWidth p2) = of_int 4785074604081152 / 2 ^ 54"
    unfolding assms by (rule fl_down) simp_all
  have b1: "fl (py p1 / screenHeight p1) = of_int 5003999585967218 / 2 ^ 54"
    unfolding assms by (rule fl_down) simp_all
  have b2: "fl (py p2 / screenHeight p2) = of_int 5003999585967218 / 2 ^ 54"
    unfolding assms by (rule fl_down) simp_all
  have sx: "fl (of_int 4691249611844267 / 2 ^ 54 - (of_int 4785074604081152 / 2 ^ 54)) = of_int (- 6004799503160640) / 2 ^ 60"
    by (rule fl_down) simp_all
  have dx: "fl ((of_int (- 6004799503160640) / 2 ^ 60) * min (screenWidth p1) (screenWidth p2)) = of_int (- 5629499534213100) / 2 ^ 49"
    unfolding assms by (rule fl_down) simp_all
  have sy: "fl (of_int 5003999585967218 / 2 ^ 54 - (of_int 5003999585967218 / 2 ^ 54)) = 0" by simp
  have dy: "fl ((0) * min (screenHeight p1) (screenHeight p2)) = 0" unfolding assms by simp
  have dxx: "fl ((of_int (- 5629499534213100) / 2 ^ 49) * (of_int (- 5629499534213100) / 2 ^ 49)) = of_int 7036874417766350 / 2 ^ 46"
    by (rule fl_down) simp_all
  have dyy: "fl ((0) * (0)) = 0" by simp
  have sm: "fl (of_int 7036874417766350 / 2 ^ 46 + 0) = of_int 7036874417766350 / 2 ^ 46"
    by (rule fl_down) simp_all
  have dist: "fl (sqrt (of_int 7036874417766350 / 2 ^ 46)) = of_int 5629499534213100 / 2 ^ 49"
    by (rule fl_sqrt_down) (simp_all add: power2_eq_square)
  show ?thesis
    using checkCollision_steps [OF d a1 a2 b1 b2 sx dx sy dy dxx dyy sm dist] by simp
qed

lemma touching_510_520:
  assumes "px p1 = 510" "py p1 = 300" "screenWidth p1 = 1920" "screenHeight p1 = 1080"
    and "px p2 = 520" "py p2 = 300" "screenWidth p2 = 1920" "screenHeight p2 = 1080"
  shows "checkCollision p1 p2"
proof -
  have d: "screenWidth p1 \<noteq> 0" "screenHeight p1 \<noteq> 0" "screenWidth p2 \<noteq> 0" "screenHeight p2 \<noteq> 0"
    unfolding assms by simp_all
  have a1: "fl (px p1 / screenWidth p1) = of_int 4785074604081152 / 2 ^ 54"
    unfolding assms by (rule fl_down) simp_all
  have a2: "fl (px p2 / screenWidth p2) = of_int 4878899596318037 / 2 ^ 54"
    unfolding assms by (rule fl_down) simp_all
  have b1: "fl (py p1 / screenHeight p1) = of_int 5003999585967218 / 2 ^ 54"
    unfolding assms by (rule fl_down) simp_all
  have b2: "fl (py p2 / screenHeight p2) = of_int 5003999585967218 / 2 ^ 54"
    unfolding assms by (rule fl_down) simp_all
  have sx: "fl (of_int 4785074604081152 / 2 ^ 54 - (of_int 4878899596318037 / 2 ^ 54)) = of_int (- 6004799503160640) / 2 ^ 60"
    by (rule fl_down) simp_all
  have dx: "fl ((of_int (- 6004799503160640) / 2 ^ 60) * min (screenWidth p1) (screenWidth p2)) = of_int (- 5629499534213100) / 2 ^ 49"
    unfolding assms by (rule fl_down) simp_all
  have sy: "fl (of_int 5003999585967218 / 2 ^ 54 - (of_int 5003999585967218 / 2 ^ 54)) = 0" by simp
  have dy: "fl ((0) * min (screenHeight p1) (screenHeight p2)) = 0" unfolding assms by simp
  have dxx: "fl ((of_int (- 5629499534213100) / 2 ^ 49) * (of_int (- 5629499534213100) / 2 ^ 49)) = of_int 7036874417766350 / 2 ^ 46"
    by (rule fl_down) simp_all
  have dyy: "fl ((0) * (0)) = 0" by simp
  have sm: "fl (of_int 7036874417766350 / 2 ^ 46 + 0) = of_int 7036874417766350 / 2 ^ 46"
    by (rule fl_down) simp_all
  have dist: "fl (sqrt (of_int 7036874417766350 / 2 ^ 46)) = of_int 5629499534213100 / 2 ^ 49"
    by (rule fl_sqrt_down) (simp_all add: power2_eq_square)
  show ?thesis
    using checkCollision_steps [OF d a1 a2 b1 b2 sx dx sy dy dxx dyy sm dist] by simp
qed

lemma apart_960_600:
  assumes "px p1 = 960" "py p1 = 540" "screenWidth p1 = 1920" "screenHeight p1 = 1080"
    and "px p2 = 600" "py p2 = 270" "screenWidth p2 = 960" "screenHeight p2 = 540"
  shows "\<not> checkCollision p1 p2"
proof -
  have d: "screenWidth p1 \<noteq> 0" "screenHeight p1 \<noteq> 0" "screenWidth p2 \<noteq> 0" "screenHeight p2 \<noteq> 0"
    unfolding assms by simp_all
  have a1: "fl (px p1 / screenWidth p1) = of_int 4503599627370496 / 2 ^ 53"
    unfolding assms by (rule fl_down) simp_all
  have a2: "fl (px p2 / screenWidth p2) = of_int 5629499534213120 / 2 ^ 53"
    unfolding assms by (rule fl_down) simp_all
  have b1: "fl (py p1 / screenHeight p1) = of_int 4503599627370496 / 2 ^ 53"
    unfolding assms by (rule fl_down) simp_all
  have b2: "fl (py p2 / screenHeight p2) = of_int 4503599627370496 / 2 ^ 53"
    unfolding assms by (rule fl_down) simp_all
  have sx: "fl (of_int 4503599627370496 / 2 ^ 53 - (of_int 5629499534213120 / 2 ^ 53)) = of_int (- 4503599627370496) / 2 ^ 55"
    by (rule fl_down) simp_all
  have dx: "fl ((of_int (- 4503599627370496) / 2 ^ 55) * min (screenWidth p1) (screenWidth p2)) = of_int (- 8444249301319680) / 2 ^ 46"
    unfolding assms by (rule fl_down) simp_all
  have sy: "fl (of_int 4503599627370496 / 2 ^ 53 - (of_int 4503599627370496 / 2 ^ 53)) = 0" by simp
  have dy: "fl ((0) * min (screenHeight p1) (screenHeight p2)) = 0" unfolding assms by simp
  have dxx: "fl ((of_int (- 8444249301319680) / 2 ^ 46) * (of_int (- 8444249301319680) / 2 ^ 46)) = of_int 7916483719987200 / 2 ^ 39"
    by (rule fl_down) simp_all
  have dyy: "fl ((0) * (0)) = 0" by simp
  have sm: "fl (of_int 7916483719987200 / 2 ^ 39 + 0) = of_int 7916483719987200 / 2 ^ 39"
    by (rule fl_down) simp_all
  have dist: "fl (sqrt (of_int 7916483719987200 / 2 ^ 39)) = of_int 8444249301319680 / 2 ^ 46"
    by (rule fl_sqrt_down) (simp_all add: power2_eq_square)
  show ?thesis
    using checkCollision_steps [OF d a1 a2 b1 b2 sx dx sy dy dxx dyy sm dist] by simp
qed


subsection \<open>The update loop\<close>

lemma update_player_total: "\<exists>ps'. update_player cur now key ps = Inr ps'"
proof (cases "map_of ps key")
  case None
  then show ?thesis by (simp add: update_player_def)
next
  case (Some p0)
  define p1 where "p1 = (if frozen p0 \<and> now > frozenUntil p0 then p0\<lparr>frozen := False\<rparr> else p0)"
  define ps1 where "ps1 = AList.update key p1 ps"
  define p2 where "p2 = move_player ps1 cur key p1"
  obtain p3 where p3: "checkPortalCollision (AList.update key p2 ps1) cur p2 = Inr p3"
    using checkPortalCollision_total by blast
  have "update_player cur now key ps =
          (if frozen p1 then Inr ps1
           else case checkPortalCollision (AList.update key p2 ps1) cur p2 of
                  Inl e \<Rightarrow> Inl e
                | Inr p3 \<Rightarrow>
                    Inr (AList.update key
                      (p3\<lparr>map_name := maps_name cur,
                          walls := getWallsForPlayer
                            (AList.update key p3 (AList.update key p2 ps1)) cur key\<rparr>)
                      (AList.update key p3 (AList.update key p2 ps1))))"
    unfolding update_player_def p1_def ps1_def p2_def Let_def using Some by simp
  then show ?thesis using p3 by simp
qed

lemma update_player_other:
  "key' \<noteq> key \<Longrightarrow> update_player cur now key ps = Inr ps' \<Longrightarrow> map_of ps' key' = map_of ps key'"
  unfolding update_player_def Let_def
  by (auto split: option.splits sum.splits if_splits simp: update_conv')

lemma update_player_local:
  assumes "map_of ps key = Some p" "pid p = key"
  shows "\<exists>p'. update_player cur now key [(key, p)] = Inr [(key, p')]
             \<and> update_player cur now key ps = Inr (AList.update key p' ps)"
proof (cases "frozen p \<and> now \<le> frozenUntil p")
  case True
  then show ?thesis using assms
    by (simp add: update_player_frozen update_triv)
next
  case False
  then have act: "\<not> frozen p \<or> now > frozenUntil p" by auto
  let ?p1 = "p\<lparr>frozen := False\<rparr>"
  have single: "map_of [(key, p)] key = Some p" by simp
  have mv: "move_player [(key, p)] cur key ?p1 = move_player ps cur key ?p1"
    by (rule move_player_cong [where q = p and q' = p]) (simp_all add: assms)
  have pc: "checkPortalCollision [(key, p)] cur (move_player ps cur key ?p1)
              = checkPortalCollision ps cur (move_player ps cur key ?p1)"
    by (rule checkPortalCollision_cong) (simp add: assms getPortalsForPlayer_def)
  obtain p3 where p3: "checkPortalCollision ps cur (move_player ps cur key ?p1) = Inr p3"
    using checkPortalCollision_total by blast
  show ?thesis
    using update_player_active [OF single act assms(2), of cur]
      update_player_active [OF assms(1) act assms(2), of cur]
    by (simp add: mv pc p3)
qed

lemma update_loop_total: "\<exists>ps'. update_loop cur now ids ps = Inr ps'"
proof (induction ids arbitrary: ps)
  case Nil
  then show ?case by simp
next
  case (Cons key ids)
  obtain ps1 where "update_player cur now key ps = Inr ps1"
    using update_player_total by blast
  then show ?case using Cons by simp
qed

lemma update_loop_other:
  "key \<notin> set ids \<Longrightarrow> update_loop cur now ids ps = Inr ps' \<Longrightarrow> map_of ps' key = map_of ps key"
proof (induction ids arbitrary: ps)
  case Nil
  then show ?case by simp
next
  case (Cons k ids)
  obtain ps1 where s: "update_player cur now k ps = Inr ps1"
    using update_player_total by blast
  with Cons.prems have "update_loop cur now ids ps1 = Inr ps'" by simp
  with Cons have "map_of ps' key = map_of ps1 key" by simp
  also have "\<dots> = map_of ps key"
    using update_player_other [OF _ s, of key] Cons.prems by auto
  finally show ?case .
qed

lemma update_loop_local:
  assumes "distinct ids" "key \<in> set ids" "map_of ps key = Some p" "pid p = key"
  shows "\<exists>p' ps1. update_player cur now key [(key, p)] = Inr [(key, p')]
            \<and> update_loop cur now ids ps = Inr ps1 \<and> map_of ps1 key = Some p'"
  using assms
proof (induction ids arbitrary: ps)
  case Nil
  then show ?case by simp
next
  case (Cons k ids)
  show ?case
  proof (cases "k = key")
    case True
    obtain p' where p': "update_player cur now key [(key, p)] = Inr [(key, p')]"
        "update_player cur now key ps = Inr (AList.update key p' ps)"
      using update_player_local [OF Cons.prems(3,4)] by blast
    obtain ps1 where ps1: "update_loop cur now ids (AList.update key p' ps) = Inr ps1"
      using update_loop_total by blast
    have "key \<notin> set ids" using Cons.prems(1) True by simp
    then have "map_of ps1 key = Some p'"
      using update_loop_other [OF _ ps1] by (simp add: update_conv')
    then show ?thesis using True p' ps1 by simp
  next
    case False
    obtain ps0 where ps0: "update_player cur now k ps = Inr ps0"
      using update_player_total by blast
    have "map_of ps0 key = Some p"
      using update_player_other [OF _ ps0, of key] False Cons.prems(3) by auto
    moreover have "distinct ids" "key \<in> set ids" using Cons.prems False by auto
    ultimately obtain p' ps1 where "update_player cur now key [(key, p)] = Inr [(key, p')]"
      "update_loop cur now ids ps0 = Inr ps1" "map_of ps1 key = Some p'"
      using Cons.IH [of ps0] Cons.prems(4) by blast
    then show ?thesis using ps0 by simp
  qed
qed

subsection \<open>Frozen players in tag detection\<close>

lemma tag_scan_frozen:
  assumes "map_of ps key = Some p" "frozen p" "map_of ps k = Some t" "\<not> frozen t"
  shows "map_of (fst (tag_scan now k os ps)) key = Some p
       \<and> key \<notin> fst ` set (snd (tag_scan now k os ps))
       \<and> key \<notin> snd ` set (snd (tag_scan now k os ps))"
  using assms
  by (induction os) (auto simp: update_conv' split: option.splits)

lemma tag_player_frozen:
  assumes "map_of ps key = Some p" "frozen p"
  shows "map_of (fst (tag_player now k ps)) key = Some p
       \<and> key \<notin> fst ` set (snd (tag_player now k ps))
       \<and> key \<notin> snd ` set (snd (tag_player now k ps))"
  using assms tag_scan_frozen [OF assms]
  by (auto simp: tag_player_def split: option.splits)

lemma tag_loop_frozen:
  assumes "map_of ps key = Some p" "frozen p"
  shows "map_of (fst (tag_loop now ids ps)) key = Some p
       \<and> key \<notin> fst ` set (snd (tag_loop now ids ps))
       \<and> key \<notin> snd ` set (snd (tag_loop now ids ps))"
  using assms
proof (induction ids arbitrary: ps)
  case Nil
  then show ?case by simp
next
  case (Cons k ids)
  obtain ps1 ev1 where s: "tag_player now k ps = (ps1, ev1)" by (cases "tag_player now k ps")
  have a: "map_of ps1 key = Some p" "key \<notin> fst ` set ev1" "key \<notin> snd ` set ev1"
    using tag_player_frozen [OF Cons.prems, of now k] s by simp_all
  from Cons.IH [OF a(1) Cons.prems(2)] a s show ?case
    by (auto split: prod.splits)
qed

lemma tick_total: "\<exists>s' evs. tick now s = Inr (s', evs)"
proof -
  obtain ps1 where "update_loop (currentMap s) now (map fst (players s)) (players s) = Inr ps1"
    using update_loop_total by blast
  then show ?thesis by (simp add: tick_def split: prod.splits)
qed

subsection \<open>Tag detection\<close>

lemma tag_scan_find:
  assumes "distinct (map fst ps)" "map_of ps key = Some tagger"
  shows "set rest \<subseteq> set ps \<Longrightarrow>
    tag_scan now key (map fst rest) ps =
     (case find (tag_target key tagger) rest of
        None \<Rightarrow> (ps, [])
      | Some e \<Rightarrow>
          (AList.update (fst e) ((snd e)\<lparr>isTagger := True, frozen := False\<rparr>)
             (AList.update key
                (tagger\<lparr>isTagger := False, frozen := True, frozenUntil := now + FREEZE_TIME\<rparr>) ps),
           [(key, fst e)]))"
proof (induction rest)
  case Nil
  then show ?case by simp
next
  case (Cons e rest)
  obtain k q where e: "e = (k, q)" by (cases e)
  have look: "map_of ps k = Some q" using Cons.prems assms(1) e by simp
  have ih: "tag_scan now key (map fst rest) ps =
     (case find (tag_target key tagger) rest of
        None \<Rightarrow> (ps, [])
      | Some e \<Rightarrow>
          (AList.update (fst e) ((snd e)\<lparr>isTagger := True, frozen := False\<rparr>)
             (AList.update key
                (tagger\<lparr>isTagger := False, frozen := True, frozenUntil := now + FREEZE_TIME\<rparr>) ps),
           [(key, fst e)]))"
    using Cons by simp
  show ?case
  proof (cases "tag_target key tagger e")
    case True
    then have "key \<noteq> k" "\<not> isTagger q" "\<not> frozen q" "checkCollision tagger q"
      using e by (auto simp: tag_target_def)
    then show ?thesis using True e look assms(2) by simp
  next
    case False
    then have "key = k \<or> isTagger q \<or> frozen q \<or> \<not> checkCollision tagger q"
      using e by (auto simp: tag_target_def)
    then have "tag_scan now key (map fst (e # rest)) ps = tag_scan now key (map fst rest) ps"
      using e look assms(2) by auto
    then show ?thesis using False ih by simp
  qed
qed

lemma tag_scan_events:
  "snd (tag_scan now key os ps) = [] \<or> (\<exists>k. snd (tag_scan now key os ps) = [(key, k)])"
  by (induction os) (auto split: option.splits)

lemma tag_player_events:
  "snd (tag_player now key ps) = [] \<or> (\<exists>k. snd (tag_player now key ps) = [(key, k)])"
  using tag_scan_events [of now key "map fst ps" ps]
  by (auto simp: tag_player_def split: option.splits)

lemma tag_loop_events:
  "distinct ids \<Longrightarrow> distinct (map fst (snd (tag_loop now ids ps)))
      \<and> set (map fst (snd (tag_loop now ids ps))) \<subseteq> set ids"
proof (induction ids arbitrary: ps)
  case Nil
  then show ?case by simp
next
  case (Cons key ids)
  obtain ps1 ev1 where s: "tag_player now key ps = (ps1, ev1)" by (cases "tag_player now key ps")
  obtain ps2 ev2 where t: "tag_loop now ids ps1 = (ps2, ev2)" by (cases "tag_loop now ids ps1")
  have ih: "distinct (map fst ev2)" "set (map fst ev2) \<subseteq> set ids"
    using Cons.IH [of ps1] Cons.prems t by simp_all
  have "ev1 = [] \<or> (\<exists>k. ev1 = [(key, k)])"
    using tag_player_events [of now key ps] s by simp
  then show ?case using s t ih Cons.prems by auto
qed

subsection \<open>Random draws and spawn placement\<close>

lemma Math_random_range: "0 \<le> Math_random rnd k \<and> Math_random rnd k < 1"
  by (simp add: Math_random_def frac_lt_1)

lemma random_index_less: "0 < n \<Longrightarrow> random_index rnd k n < n"
proof -
  assume n: "0 < n"
  have "Math_random rnd k * real n < real n"
    using Math_random_range [of rnd k] n by simp
  moreover have "0 \<le> Math_random rnd k * real n"
    using Math_random_range [of rnd k] by simp
  ultimately show ?thesis
    unfolding random_index_def by (simp add: floor_less_iff nat_less_iff)
qed

lemma unlucky_draws: "Math_random unlucky 0 = 1 / 4" "Math_random unlucky (Suc k) = 1 / 2"
  by (simp_all add: Math_random_def unlucky_def frac_def)

lemma spawn_unregistered:
  "map_of ps playerId = None \<Longrightarrow>
   findSafeSpawn rnd k ps cur playerId sw sh =
     (Math_random rnd k * (sw - 200) + 100, Math_random rnd (k + 1) * (sh - 200) + 100, k + 2)"
  by (simp add: findSafeSpawn_def spawn_loop.simps [of rnd k 0] checkWallCollision_def
      getWallsForPlayer_def Let_def)

lemma spawn_loop_result:
  "attempts < 100 \<Longrightarrow> spawn_loop rnd k attempts ps cur playerId sw sh = (x, y, k') \<Longrightarrow>
     \<not> checkWallCollision ps cur x y playerId \<or> k' = k + 2 * (100 - attempts)"
proof (induction rnd k attempts ps cur playerId sw sh rule: spawn_loop.induct)
  case (1 rnd k attempts ps cur playerId sw sh)
  let ?x = "Math_random rnd k * (sw - 200) + 100"
  let ?y = "Math_random rnd (k + 1) * (sh - 200) + 100"
  have unf: "spawn_loop rnd k attempts ps cur playerId sw sh =
     (if checkWallCollision ps cur ?x ?y playerId \<and> attempts + 1 < 100
      then spawn_loop rnd (k + 2) (attempts + 1) ps cur playerId sw sh
      else (?x, ?y, k + 2))"
    by (subst spawn_loop.simps) (simp add: Let_def)
  show ?case
  proof (cases "checkWallCollision ps cur ?x ?y playerId \<and> attempts + 1 < 100")
    case True
    then have "spawn_loop rnd (k + 2) (attempts + 1) ps cur playerId sw sh = (x, y, k')"
      using "1.prems"(2) unf by simp
    then have "\<not> checkWallCollision ps cur x y playerId \<or> k' = k + 2 + 2 * (100 - (attempts + 1))"
      using "1.IH" [OF refl refl] True by simp
    then show ?thesis using True by auto
  next
    case False
    then have r: "x = ?x" "y = ?y" "k' = k + 2"
      using "1.prems"(2) unf by auto
    show ?thesis
    proof (cases "checkWallCollision ps cur ?x ?y playerId")
      case True
      then have "attempts = 99" using False "1.prems"(1) by simp
      then show ?thesis using r by simp
    next
      case False
      then show ?thesis using r by simp
    qed
  qed
qed

lemma findSafeSpawn_registered:
  assumes "map_of ps playerId = Some p" "findSafeSpawn rnd k ps cur playerId sw sh = (x, y, k')"
  shows "\<not> wall_loop x y (getWalls cur (screenWidth p) (screenHeight p))
       \<or> ((x, y) = (sw / 2, sh / 2) \<and> k' = k + 200)"
proof -
  obtain a b c where s: "spawn_loop rnd k 0 ps cur playerId sw sh = (a, b, c)"
    by (cases "spawn_loop rnd k 0 ps cur playerId sw sh") auto
  have d: "\<not> checkWallCollision ps cur a b playerId \<or> c = k + 200"
    using spawn_loop_result [OF _ s] by simp
  have w: "checkWallCollision ps cur u v playerId
            = wall_loop u v (getWalls cur (screenWidth p) (screenHeight p))" for u v
    using assms(1) by (rule checkWallCollision_own)
  show ?thesis
    using assms(2) s d unfolding findSafeSpawn_def w
    by (auto split: if_splits)
qed

lemma spawn_loop_cong:
  assumes "\<And>u v. checkWallCollision ps cur u v playerId = checkWallCollision ps' cur u v playerId"
  shows "spawn_loop rnd k n ps cur playerId sw sh = spawn_loop rnd k n ps' cur playerId sw sh"
  using assms
proof (induction rnd k n ps cur playerId sw sh rule: spawn_loop.induct)
  case (1 rnd k attempts ps cur playerId sw sh)
  show ?case
    apply (subst spawn_loop.simps)
    apply (subst (2) spawn_loop.simps)
    using 1 by (simp add: Let_def)
qed

lemma findSafeSpawn_cong:
  assumes "map_of ps playerId = Some p" "map_of ps' playerId = Some p'"
    "screenWidth p = screenWidth p'" "screenHeight p = screenHeight p'"
  shows "findSafeSpawn rnd k ps cur playerId sw sh = findSafeSpawn rnd k ps' cur playerId sw sh"
proof -
  have w: "checkWallCollision ps cur u v playerId = checkWallCollision ps' cur u v playerId" for u v
    using assms by (simp add: checkWallCollision_own)
  show ?thesis
    using spawn_loop_cong [of ps cur playerId ps', OF w] by (simp add: findSafeSpawn_def w)
qed

lemma sample_range:
  "200 \<le> d \<Longrightarrow> 100 \<le> Math_random rnd k * (d - 200) + 100
                 \<and> Math_random rnd k * (d - 200) + 100 \<le> d - 100"
proof -
  assume d: "200 \<le> d"
  have r: "0 \<le> Math_random rnd k" "Math_random rnd k \<le> 1"
    using Math_random_range [of rnd k] by simp_all
  have "Math_random rnd k * (d - 200) \<le> 1 * (d - 200)"
    using r(2) d by (intro mult_right_mono) simp_all
  moreover have "0 \<le> Math_random rnd k * (d - 200)"
    using r(1) d by simp
  ultimately show ?thesis by simp
qed

lemma lucky_draws: "Math_random lucky 0 = 1 / 4" "Math_random lucky (Suc k) = 1 / 8"
  by (simp_all add: Math_random_def lucky_def frac_def)


subsection \<open>Map rotation\<close>

lemma pick_new_map_returns:
  "mapKeys ! random_index rnd (k + n) (length mapKeys) \<noteq> cur \<Longrightarrow>
   \<exists>m k'. pick_new_map rnd k cur = Some (m, k') \<and> m \<noteq> cur \<and> m \<in> set mapKeys"
proof (induction n arbitrary: k)
  case 0
  have "0 < length mapKeys" by (simp add: mapKeys_def)
  then have "random_index rnd k (length mapKeys) < length mapKeys"
    by (rule random_index_less)
  then have "mapKeys ! random_index rnd k (length mapKeys) \<in> set mapKeys" by (rule nth_mem)
  then show ?case using 0
    by (subst pick_new_map.simps) (simp add: Let_def)
next
  case (Suc n)
  have "0 < length mapKeys" by (simp add: mapKeys_def)
  then have "random_index rnd k (length mapKeys) < length mapKeys"
    by (rule random_index_less)
  then have mem: "mapKeys ! random_index rnd k (length mapKeys) \<in> set mapKeys"
    by (rule nth_mem)
  show ?case
  proof (cases "mapKeys ! random_index rnd k (length mapKeys) = cur")
    case True
    have "\<exists>m k'. pick_new_map rnd (k + 1) cur = Some (m, k') \<and> m \<noteq> cur \<and> m \<in> set mapKeys"
      using Suc.IH [of "k + 1"] Suc.prems by simp
    then show ?thesis using True
      by (subst pick_new_map.simps) (simp add: Let_def)
  next
    case False
    then show ?thesis using mem
      by (subst pick_new_map.simps) (simp add: Let_def)
  qed
qed

lemma respawned_step:
  assumes "map_of ps key = Some p"
    "findSafeSpawn rnd k ps cur key (screenWidth p) (screenHeight p) = (sx, sy, k1)"
  shows "respawned rnd cur key p (p\<lparr>px := sx, py := sy\<rparr>)"
proof -
  have c: "findSafeSpawn rnd k [(key, p)] cur key (screenWidth p) (screenHeight p) = (sx, sy, k1)"
    using findSafeSpawn_cong [of "[(key, p)]" key p ps p] assms by simp
  have "\<not> wall_loop sx sy (getWalls cur (screenWidth p) (screenHeight p))
       \<or> ((sx, sy) = (screenWidth p / 2, screenHeight p / 2) \<and> k1 = k + 200)"
    using findSafeSpawn_registered [OF assms] .
  then show ?thesis
    unfolding respawned_def using c by auto
qed

lemma respawn_loop_props:
  assumes "distinct ids" "respawn_loop rnd k cur ids ps = (ps', k')"
  shows "map fst ps' = map fst ps
       \<and> (\<forall>key p. map_of ps key = Some p \<longrightarrow>
            (if key \<in> set ids then (\<exists>p'. map_of ps' key = Some p' \<and> respawned rnd cur key p p')
             else map_of ps' key = Some p))"
  using assms
proof (induction ids arbitrary: ps k)
  case Nil
  then show ?case by simp
next
  case (Cons i ids)
  show ?case
  proof (cases "map_of ps i")
    case None
    then have r: "respawn_loop rnd k cur ids ps = (ps', k')" using Cons.prems by simp
    have ih: "map fst ps' = map fst ps
       \<and> (\<forall>key p. map_of ps key = Some p \<longrightarrow>
            (if key \<in> set ids then (\<exists>p'. map_of ps' key = Some p' \<and> respawned rnd cur key p p')
             else map_of ps' key = Some p))"
      using Cons.IH [OF _ r] Cons.prems(1) by simp
    then show ?thesis using None by auto
  next
    case (Some q)
    obtain sx sy k1 where f: "findSafeSpawn rnd k ps cur i (screenWidth q) (screenHeight q) = (sx, sy, k1)"
      by (cases "findSafeSpawn rnd k ps cur i (screenWidth q) (screenHeight q)") auto
    let ?q' = "q\<lparr>px := sx, py := sy\<rparr>"
    let ?ps1 = "AList.update i ?q' ps"
    have r: "respawn_loop rnd k1 cur ids ?ps1 = (ps', k')"
      using Cons.prems(2) Some f by simp
    have ih: "map fst ps' = map fst ?ps1
       \<and> (\<forall>key p. map_of ?ps1 key = Some p \<longrightarrow>
            (if key \<in> set ids then (\<exists>p'. map_of ps' key = Some p' \<and> respawned rnd cur key p p')
             else map_of ps' key = Some p))"
      using Cons.IH [OF _ r] Cons.prems(1) by simp
    have keys: "map fst ?ps1 = map fst ps"
      using Some by (simp add: update_keys) (metis domI dom_map_of_conv_image_fst)
    have notin: "i \<notin> set ids" using Cons.prems(1) by simp
    have here: "map_of ps' i = Some ?q'"
      using ih notin by (simp add: update_conv')
    have there: "map_of ?ps1 key = map_of ps key" if "key \<noteq> i" for key
      using that by (simp add: update_conv')
    show ?thesis
    proof (intro conjI allI impI)
      show "map fst ps' = map fst ps" using ih keys by simp
    next
      fix key p
      assume kp: "map_of ps key = Some p"
      show "if key \<in> set (i # ids)
            then \<exists>p'. map_of ps' key = Some p' \<and> respawned rnd cur key p p'
            else map_of ps' key = Some p"
      proof (cases "key = i")
        case True
        then have "p = q" using kp Some by simp
        then show ?thesis using True here respawned_step [OF Some f] by simp
      next
        case False
        then show ?thesis using ih there [OF False] kp by auto
      qed
    qed
  qed
qed

subsection \<open>Standing on a portal\<close>

lemma axis_delta_bound: "0 \<le> speed \<Longrightarrow> \<bar>axis_delta speed a b\<bar> \<le> speed"
  by (simp add: axis_delta_def)

lemma clamp_axis_near:
  "PLAYER_SIZE \<le> x \<Longrightarrow> x \<le> d - PLAYER_SIZE \<Longrightarrow> \<bar>v - x\<bar> \<le> s \<Longrightarrow> \<bar>clamp_axis d v - x\<bar> \<le> s"
  by (auto simp: clamp_axis_def max_def min_def)

lemma move_player_near:
  assumes "PLAYER_SIZE \<le> px p" "px p \<le> screenWidth p - PLAYER_SIZE"
    "PLAYER_SIZE \<le> py p" "py p \<le> screenHeight p - PLAYER_SIZE"
  shows "\<bar>px (move_player ps cur key p) - px p\<bar> \<le> 15 / 4
       \<and> \<bar>py (move_player ps cur key p) - py p\<bar> \<le> 15 / 4"
proof -
  define speed :: real where "speed = (if isTagger p then 3.75 else 3)"
  have sp: "0 \<le> speed" "speed \<le> 15 / 4" by (simp_all add: speed_def)
  define cx where "cx = clamp_axis (screenWidth p) (px p + axis_delta speed (left (input p)) (right (input p)))"
  define cy where "cy = clamp_axis (screenHeight p) (py p + axis_delta speed (up (input p)) (down (input p)))"
  have "\<bar>cx - px p\<bar> \<le> speed"
    unfolding cx_def using axis_delta_bound [OF sp(1)] by (intro clamp_axis_near assms) simp
  moreover have "\<bar>cy - py p\<bar> \<le> speed"
    unfolding cy_def using axis_delta_bound [OF sp(1)] by (intro clamp_axis_near assms) simp
  moreover have "move_candidate p = (cx, cy)"
    by (simp add: move_candidate_spec spec_candidate_def cx_def cy_def speed_def Let_def)
  ultimately show ?thesis using sp(2)
    by (auto simp: move_player_def)
qed

lemma inside_portal_sq:
  "0 \<le> radius portal \<Longrightarrow>
   inside_portal x y portal \<longleftrightarrow>
     (x - portal_x portal)\<^sup>2 + (y - portal_y portal)\<^sup>2 < radius portal * radius portal"
  by (simp add: inside_portal_def sqrt_less_iff_sq)

lemma near_inside: "\<bar>a\<bar> \<le> 15 / 4 \<Longrightarrow> \<bar>b\<bar> \<le> 15 / 4 \<Longrightarrow> a\<^sup>2 + b\<^sup>2 < (1600::real)"
proof -
  assume a: "\<bar>a\<bar> \<le> 15 / 4" and b: "\<bar>b\<bar> \<le> 15 / 4"
  have "\<bar>a\<bar> \<le> \<bar>15 / 4 :: real\<bar>" "\<bar>b\<bar> \<le> \<bar>15 / 4 :: real\<bar>" using a b by simp_all
  then have "a\<^sup>2 \<le> (15 / 4)\<^sup>2" "b\<^sup>2 \<le> (15 / 4)\<^sup>2" by (simp_all only: abs_le_square_iff)
  then show ?thesis by (simp add: power2_eq_square)
qed

lemma far_outside: "40 \<le> \<bar>a\<bar> \<Longrightarrow> \<not> a\<^sup>2 + b\<^sup>2 < (1600::real)"
proof -
  assume a: "40 \<le> \<bar>a\<bar>"
  have "\<bar>40::real\<bar> \<le> \<bar>a\<bar>" using a by simp
  then have "(40::real)\<^sup>2 \<le> a\<^sup>2" by (simp only: abs_le_square_iff)
  then have "1600 \<le> a\<^sup>2" by simp
  then have "1600 \<le> a\<^sup>2 + b\<^sup>2" using zero_le_power2 [of b] by linarith
  then show ?thesis by simp
qed

lemma far_outside': "40 \<le> \<bar>b\<bar> \<Longrightarrow> \<not> a\<^sup>2 + b\<^sup>2 < (1600::real)"
  using far_outside [of b a] by (simp add: add.commute)

lemma teleport_portals_hit:
  assumes "getPortals cur = Some gp" "175 / 2 \<le> w" "175 / 2 \<le> h" "i < length (gp w h)"
    "\<bar>x - portal_x (gp w h ! i)\<bar> \<le> 15 / 4" "\<bar>y - portal_y (gp w h ! i)\<bar> \<le> 15 / 4"
  shows "find (inside_portal x y) (gp w h) = Some (gp w h ! i)"
proof -
  have gp: "gp = (\<lambda>w h.
     [mk_portal (w * 0.25) (h * 0.25) 40 3,
      mk_portal (w * 0.75) (h * 0.25) 40 2,
      mk_portal (w * 0.25) (h * 0.75) 40 1,
      mk_portal (w * 0.75) (h * 0.75) 40 0])"
    using assms(1) by (cases cur) auto
  have i: "i = 0 \<or> i = 1 \<or> i = 2 \<or> i = 3" using assms(4) unfolding gp by auto
  have A: "inside_portal x y (mk_portal a b 40 t) \<longleftrightarrow> (x - a)\<^sup>2 + (y - b)\<^sup>2 < 1600" for a b t
    by (simp add: inside_portal_sq mk_portal_def)
  from i show ?thesis
  proof (elim disjE)
    assume "i = 0"
    then have "\<bar>x - w * 0.25\<bar> \<le> 15 / 4" "\<bar>y - h * 0.25\<bar> \<le> 15 / 4"
      using assms(5,6) unfolding gp by (simp_all add: mk_portal_def)
    then show ?thesis unfolding gp using \<open>i = 0\<close> by (simp add: A near_inside)
  next
    assume "i = 1"
    then have n: "\<bar>x - w * 0.75\<bar> \<le> 15 / 4" "\<bar>y - h * 0.25\<bar> \<le> 15 / 4"
      using assms(5,6) unfolding gp by (simp_all add: mk_portal_def)
    have "40 \<le> \<bar>x - w * 0.25\<bar>" using n assms(2) by (simp add: abs_if split: if_splits)
    then show ?thesis unfolding gp using \<open>i = 1\<close> n by (simp add: A near_inside far_outside)
  next
    assume "i = 2"
    then have n: "\<bar>x - w * 0.25\<bar> \<le> 15 / 4" "\<bar>y - h * 0.75\<bar> \<le> 15 / 4"
      using assms(5,6) unfolding gp by (simp_all add: mk_portal_def)
    have "40 \<le> \<bar>y - h * 0.25\<bar>" using n assms(3) by (simp add: abs_if split: if_splits)
    then show ?thesis unfolding gp using \<open>i = 2\<close> n by (simp add: A near_inside far_outside')
  next
    assume "i = 3"
    then have n: "\<bar>x - w * 0.75\<bar> \<le> 15 / 4" "\<bar>y - h * 0.75\<bar> \<le> 15 / 4"
      using assms(5,6) unfolding gp by (simp_all add: mk_portal_def)
    have "40 \<le> \<bar>y - h * 0.25\<bar>" "40 \<le> \<bar>x - w * 0.25\<bar>"
      using n assms(2,3) by (simp_all add: abs_if split: if_splits)
    then show ?thesis unfolding gp using \<open>i = 3\<close> n
      by (simp add: A near_inside far_outside far_outside')
  qed
qed

lemma teleport_portals_inset:
  assumes "getPortals cur = Some gp" "175 / 2 \<le> w" "175 / 2 \<le> h" "i < length (gp w h)"
  shows "PLAYER_SIZE \<le> portal_x (gp w h ! i) \<and> portal_x (gp w h ! i) \<le> w - PLAYER_SIZE
       \<and> PLAYER_SIZE \<le> portal_y (gp w h ! i) \<and> portal_y (gp w h ! i) \<le> h - PLAYER_SIZE
       \<and> target (gp w h ! i) = 3 - i"
proof -
  have gp: "gp = (\<lambda>w h.
     [mk_portal (w * 0.25) (h * 0.25) 40 3,
      mk_portal (w * 0.75) (h * 0.25) 40 2,
      mk_portal (w * 0.25) (h * 0.75) 40 1,
      mk_portal (w * 0.75) (h * 0.75) 40 0])"
    using assms(1) by (cases cur) auto
  have i: "i = 0 \<or> i = 1 \<or> i = 2 \<or> i = 3" using assms(4) unfolding gp by auto
  then show ?thesis unfolding gp using assms(2,3)
    by (auto simp: mk_portal_def PLAYER_SIZE_def)
qed

subsection \<open>The tagger invariant\<close>

lemma taggers_update:
  "map_of ps k = Some q \<Longrightarrow>
   taggers (AList.update k q' ps) + of_bool (isTagger q) = taggers ps + of_bool (isTagger q')"
  by (induction ps) (auto simp: taggers_def split: if_splits)

lemma taggers_delete:
  "distinct (map fst ps) \<Longrightarrow> map_of ps k = Some q \<Longrightarrow>
   taggers (AList.delete k ps) + of_bool (isTagger q) = taggers ps"
proof (induction ps)
  case Nil
  then show ?case by simp
next
  case (Cons e ps)
  show ?case
  proof (cases "fst e = k")
    case True
    then have "k \<notin> fst ` set ps" using Cons.prems(1) by auto
    then have "AList.delete k ps = ps" by simp
    then show ?thesis using True Cons.prems(2) by (cases e) (auto simp: taggers_def)
  next
    case False
    then show ?thesis using Cons by (cases e) (auto simp: taggers_def)
  qed
qed

lemma taggers_map_entry:
  "map_of ps k = Some q \<Longrightarrow>
   taggers (AList.map_entry k f ps) + of_bool (isTagger q) = taggers ps + of_bool (isTagger (f q))"
  by (induction ps) (auto simp: taggers_def split: if_splits)

lemma update_fresh: "map_of ps k = None \<Longrightarrow> AList.update k v ps = ps @ [(k, v)]"
  by (induction ps) (auto split: if_splits)

lemma update_present_keys: "map_of ps k = Some q \<Longrightarrow> map fst (AList.update k v ps) = map fst ps"
  by (induction ps) (auto split: if_splits)

lemma join_shape:
  "\<exists>p. players (fst (join rnd k socket_id data s)) = AList.update socket_id p (players s)
      \<and> currentMap (fst (join rnd k socket_id data s)) = currentMap s
      \<and> pid p = socket_id \<and> isTagger p = (players s = []) \<and> \<not> frozen p \<and> frozenUntil p = 0"
proof -
  obtain sx sy k1 where f: "findSafeSpawn rnd k (players s) (currentMap s) socket_id
      (or_default (join_screenWidth data) DEFAULT_WIDTH)
      (or_default (join_screenHeight data) DEFAULT_HEIGHT) = (sx, sy, k1)"
    using prod_cases3 by blast
  obtain c k2 where c: "randomColor rnd k1 = (c, k2)" by (cases "randomColor rnd k1")
  show ?thesis
    unfolding join_def Let_def f c prod.case
    by (intro exI conjI) (simp, simp_all)
qed

lemma join_fresh_one_tagger:
  assumes "map_of (players s) socket_id = None" "one_tagger (players s)"
  shows "one_tagger (players (fst (join rnd k socket_id data s)))"
proof -
  obtain p where p: "players (fst (join rnd k socket_id data s)) = AList.update socket_id p (players s)"
      "isTagger p = (players s = [])"
    using join_shape by blast
  have "taggers (players s @ [(socket_id, p)]) = taggers (players s) + of_bool (players s = [])"
    using p(2) by (simp add: taggers_def)
  then show ?thesis
    using assms p(1) by (auto simp: update_fresh one_tagger_def taggers_def)
qed

lemma update_player_shape:
  assumes "map_of ps key = Some p0"
  shows "\<exists>p'. update_player cur now key ps = Inr (AList.update key p' ps)
             \<and> isTagger p' = isTagger p0"
proof -
  define p1 where "p1 = (if frozen p0 \<and> now > frozenUntil p0 then p0\<lparr>frozen := False\<rparr> else p0)"
  define ps1 where "ps1 = AList.update key p1 ps"
  define p2 where "p2 = move_player ps1 cur key p1"
  obtain p3 where p3: "checkPortalCollision (AList.update key p2 ps1) cur p2 = Inr p3"
    using checkPortalCollision_total by blast
  have t1: "isTagger p1 = isTagger p0" by (simp add: p1_def)
  have "p3 = p2\<lparr>px := px p3, py := py p3\<rparr>" using p3 by (rule checkPortalCollision_fields)
  then have "isTagger p3 = isTagger p2"
    by (metis player.select_convs(6) player.surjective player.update_convs(3,4))
  then have t3: "isTagger p3 = isTagger p0" using t1 by (simp add: p2_def)
  have "update_player cur now key ps =
          (if frozen p1 then Inr ps1
           else case checkPortalCollision (AList.update key p2 ps1) cur p2 of
                  Inl e \<Rightarrow> Inl e
                | Inr p3 \<Rightarrow>
                    Inr (AList.update key
                      (p3\<lparr>map_name := maps_name cur,
                          walls := getWallsForPlayer
                            (AList.update key p3 (AList.update key p2 ps1)) cur key\<rparr>)
                      (AList.update key p3 (AList.update key p2 ps1))))"
    unfolding update_player_def p1_def ps1_def p2_def Let_def using assms by simp
  then show ?thesis
    using p3 t1 t3 by (cases "frozen p1") (auto simp: ps1_def)
qed

lemma update_player_taggers:
  assumes "update_player cur now key ps = Inr ps'"
  shows "taggers ps' = taggers ps \<and> map fst ps' = map fst ps"
proof (cases "map_of ps key")
  case None
  then show ?thesis using assms by (simp add: update_player_def)
next
  case (Some p0)
  obtain p' where "update_player cur now key ps = Inr (AList.update key p' ps)"
      "isTagger p' = isTagger p0"
    using update_player_shape [OF Some] by blast
  then show ?thesis
    using assms taggers_update [OF Some, of p'] update_present_keys [OF Some, of p'] by simp
qed

lemma update_loop_taggers:
  "update_loop cur now ids ps = Inr ps' \<Longrightarrow> taggers ps' = taggers ps \<and> map fst ps' = map fst ps"
proof (induction ids arbitrary: ps)
  case Nil
  then show ?case by simp
next
  case (Cons key ids)
  obtain ps1 where s: "update_player cur now key ps = Inr ps1"
    using update_player_total by blast
  then have "update_loop cur now ids ps1 = Inr ps'" using Cons.prems by simp
  then show ?case using Cons.IH [of ps1] update_player_taggers [OF s] by simp
qed

lemma tag_player_taggers:
  assumes "distinct (map fst ps)"
  shows "taggers (fst (tag_player now key ps)) = taggers ps
       \<and> map fst (fst (tag_player now key ps)) = map fst ps"
proof (cases "map_of ps key")
  case None
  then show ?thesis by (simp add: tag_player_def)
next
  case (Some tagger)
  show ?thesis
  proof (cases "\<not> isTagger tagger \<or> frozen tagger")
    case True
    then show ?thesis using Some by (auto simp: tag_player_def)
  next
    case False
    then have scan: "tag_player now key ps = tag_scan now key (map fst ps) ps"
      using Some by (simp add: tag_player_def)
    show ?thesis
    proof (cases "find (tag_target key tagger) ps")
      case None
      then show ?thesis using scan tag_scan_find [OF assms Some, of ps now] by simp
    next
      case (Some e)
      let ?t = "tagger\<lparr>isTagger := False, frozen := True, frozenUntil := now + FREEZE_TIME\<rparr>"
      let ?o = "(snd e)\<lparr>isTagger := True, frozen := False\<rparr>"
      let ?ps1 = "AList.update key ?t ps"
      have mem: "e \<in> set ps" using Some by (rule find_in_set)
      have tgt: "tag_target key tagger e" using Some by (metis find_Some_iff)
      then have ne: "fst e \<noteq> key" and nt: "\<not> isTagger (snd e)" by (simp_all add: tag_target_def)
      have look: "map_of ps (fst e) = Some (snd e)" using mem assms by simp
      then have look1: "map_of ?ps1 (fst e) = Some (snd e)" using ne by (simp add: update_conv')
      have r: "fst (tag_player now key ps) = AList.update (fst e) ?o ?ps1"
        using scan tag_scan_find [OF assms \<open>map_of ps key = Some tagger\<close>, of ps now] Some by simp
      have "taggers ?ps1 + 1 = taggers ps"
        using taggers_update [OF \<open>map_of ps key = Some tagger\<close>, of ?t] False by simp
      moreover have "taggers (AList.update (fst e) ?o ?ps1) = taggers ?ps1 + 1"
        using taggers_update [OF look1, of ?o] nt by simp
      moreover have "map fst (AList.update (fst e) ?o ?ps1) = map fst ps"
        using update_present_keys [OF look1] update_present_keys [OF \<open>map_of ps key = Some tagger\<close>]
        by simp
      ultimately show ?thesis using r by simp
    qed
  qed
qed

lemma tag_loop_taggers:
  "distinct (map fst ps) \<Longrightarrow>
   taggers (fst (tag_loop now ids ps)) = taggers ps \<and> map fst (fst (tag_loop now ids ps)) = map fst ps"
proof (induction ids arbitrary: ps)
  case Nil
  then show ?case by simp
next
  case (Cons key ids)
  obtain ps1 ev1 where s: "tag_player now key ps = (ps1, ev1)" by (cases "tag_player now key ps")
  have a: "taggers ps1 = taggers ps" "map fst ps1 = map fst ps"
    using tag_player_taggers [OF Cons.prems, of now key] s by simp_all
  then have "distinct (map fst ps1)" using Cons.prems by simp
  from Cons.IH [OF this] a s show ?case by (auto split: prod.splits)
qed

lemma one_tagger_same:
  "taggers ps' = taggers ps \<Longrightarrow> map fst ps' = map fst ps \<Longrightarrow> one_tagger ps \<Longrightarrow> one_tagger ps'"
  by (auto simp: one_tagger_def)

lemma tick_one_tagger:
  assumes "tick now s = Inr (s', evs)" "distinct (map fst (players s))" "one_tagger (players s)"
  shows "one_tagger (players s') \<and> map fst (players s') = map fst (players s)"
proof -
  obtain ps1 where u: "update_loop (currentMap s) now (map fst (players s)) (players s) = Inr ps1"
    using update_loop_total by blast
  have a: "taggers ps1 = taggers (players s)" "map fst ps1 = map fst (players s)"
    using update_loop_taggers [OF u] by simp_all
  then have d: "distinct (map fst ps1)" using assms(2) by simp
  have s': "players s' = fst (tag_loop now (map fst ps1) ps1)"
    using assms(1) u by (auto simp: tick_def tag_detection_def split: prod.splits)
  have b: "taggers (players s') = taggers ps1" "map fst (players s') = map fst ps1"
    using tag_loop_taggers [OF d, of now "map fst ps1"] s' by simp_all
  show ?thesis
    using one_tagger_same [of "players s'" "players s"] a b assms(3) by simp
qed

lemma disconnect_one_tagger:
  assumes "distinct (map fst (players s))" "one_tagger (players s)"
  shows "one_tagger (players (fst (disconnect rnd k socket_id s)))"
proof (cases "map_of (players s) socket_id")
  case None
  then show ?thesis using assms by (simp add: disconnect_def)
next
  case (Some p)
  let ?ps1 = "AList.delete socket_id (players s)"
  have del: "taggers ?ps1 + of_bool (isTagger p) = taggers (players s)"
    using taggers_delete [OF assms(1) Some] .
  have one: "taggers (players s) = 1"
    using assms(2) Some by (auto simp: one_tagger_def)
  show ?thesis
  proof (cases "isTagger p")
    case False
    then show ?thesis using Some del one by (simp add: disconnect_def one_tagger_def)
  next
    case True
    then have zero: "taggers ?ps1 = 0" using del one by simp
    show ?thesis
    proof (cases "?ps1 = []")
      case True
      then show ?thesis using Some \<open>isTagger p\<close> by (simp add: disconnect_def one_tagger_def)
    next
      case False
      define newTagger where
        "newTagger = map fst ?ps1 ! random_index rnd k (length (map fst ?ps1))"
      have "random_index rnd k (length (map fst ?ps1)) < length (map fst ?ps1)"
        using False by (intro random_index_less) simp
      then have "newTagger \<in> set (map fst ?ps1)" unfolding newTagger_def by (rule nth_mem)
      then obtain q where q: "map_of ?ps1 newTagger = Some q"
        by (metis map_of_eq_None_iff not_Some_eq set_map)
      have "\<not> isTagger q"
      proof
        assume "isTagger q"
        moreover have "(newTagger, q) \<in> set ?ps1" using q by (rule map_of_SomeD)
        ultimately have "\<exists>e \<in> set ?ps1. isTagger (snd e)" by force
        then have "filter (\<lambda>e. isTagger (snd e)) ?ps1 \<noteq> []"
          by (simp add: filter_empty_conv)
        then show False using zero by (simp add: taggers_def)
      qed
      then have "taggers (AList.map_entry newTagger (\<lambda>q. q\<lparr>isTagger := True, frozen := False\<rparr>) ?ps1) = 1"
        using taggers_map_entry [OF q, of "\<lambda>q. q\<lparr>isTagger := True, frozen := False\<rparr>"] zero by simp
      then show ?thesis
        using Some \<open>isTagger p\<close> False
        by (simp add: disconnect_def one_tagger_def Let_def newTagger_def)
    qed
  qed
qed

lemma disconnect_new_tagger:
  assumes "map_of (players s) socket_id = Some p" "isTagger p"
    "AList.delete socket_id (players s) \<noteq> []"
  shows "\<exists>b q. map_of (players (fst (disconnect rnd k socket_id s))) b = Some q
            \<and> b \<noteq> socket_id \<and> isTagger q \<and> \<not> frozen q"
proof -
  let ?ps1 = "AList.delete socket_id (players s)"
  define newTagger where
    "newTagger = map fst ?ps1 ! random_index rnd k (length (map fst ?ps1))"
  have "random_index rnd k (length (map fst ?ps1)) < length (map fst ?ps1)"
    using assms(3) by (intro random_index_less) simp
  then have mem: "newTagger \<in> set (map fst ?ps1)" unfolding newTagger_def by (rule nth_mem)
  then obtain q where q: "map_of ?ps1 newTagger = Some q"
    by (metis map_of_eq_None_iff not_Some_eq set_map)
  have ne: "newTagger \<noteq> socket_id"
    using mem delete_notin_dom [of socket_id "players s"] by auto
  have "players (fst (disconnect rnd k socket_id s))
          = AList.map_entry newTagger (\<lambda>q. q\<lparr>isTagger := True, frozen := False\<rparr>) ?ps1"
    using assms by (simp add: disconnect_def Let_def newTagger_def)
  then have "map_of (players (fst (disconnect rnd k socket_id s))) newTagger
          = Some (q\<lparr>isTagger := True, frozen := False\<rparr>)"
    using q by (simp add: map_of_map_entry)
  moreover have "isTagger (q\<lparr>isTagger := True, frozen := False\<rparr>)"
    and "\<not> frozen (q\<lparr>isTagger := True, frozen := False\<rparr>)" by simp_all
  ultimately show ?thesis using ne by blast
qed

subsection \<open>What tag detection leaves alone\<close>

lemma role_change_refl [simp]: "role_change p p"
  by (simp add: role_change_def)

lemma role_change_trans: "role_change p q \<Longrightarrow> role_change q r \<Longrightarrow> role_change p r"
  by (cases p, cases q, cases r) (simp add: role_change_def)

lemma role_change_fields:
  assumes "role_change p p'"
  shows "px p' = px p" "py p' = py p" "pid p' = pid p"
    "screenWidth p' = screenWidth p" "screenHeight p' = screenHeight p" "input p' = input p"
  using assms by (cases p, cases p', simp add: role_change_def)+

lemma tag_scan_role:
  "map_of ps key = Some p \<Longrightarrow>
   \<exists>p'. map_of (fst (tag_scan now k os ps)) key = Some p' \<and> role_change p p'"
proof (induction os)
  case Nil
  then show ?case by simp
next
  case (Cons otherId os)
  show ?case
  proof (cases "k = otherId")
    case True
    then show ?thesis using Cons by simp
  next
    case False
    show ?thesis
    proof (cases "map_of ps k")
      case None
      then show ?thesis using Cons False by simp
    next
      case (Some tagger)
      note tg = this
      show ?thesis
      proof (cases "map_of ps otherId")
        case None
        then show ?thesis using Cons False tg by simp
      next
        case (Some other)
        show ?thesis
        proof (cases "\<not> isTagger other \<and> \<not> frozen other \<and> checkCollision tagger other")
          case False
          then have "tag_scan now k (otherId # os) ps = tag_scan now k os ps"
            using \<open>k \<noteq> otherId\<close> tg Some by auto
          then show ?thesis using Cons by simp
        next
          case True
          let ?t = "tagger\<lparr>isTagger := False, frozen := True, frozenUntil := now + FREEZE_TIME\<rparr>"
          let ?o = "other\<lparr>isTagger := True, frozen := False\<rparr>"
          have r: "fst (tag_scan now k (otherId # os) ps)
                     = AList.update otherId ?o (AList.update k ?t ps)"
            using \<open>k \<noteq> otherId\<close> tg Some True by simp
          have t: "role_change tagger ?t" and o: "role_change other ?o"
            by (simp_all add: role_change_def)
          show ?thesis
            unfolding r using Cons.prems tg Some t o \<open>k \<noteq> otherId\<close>
            by (auto simp: update_conv')
        qed
      qed
    qed
  qed
qed

lemma tag_player_role:
  "map_of ps key = Some p \<Longrightarrow>
   \<exists>p'. map_of (fst (tag_player now k ps)) key = Some p' \<and> role_change p p'"
  using tag_scan_role [of ps key p now k "map fst ps"]
  by (auto simp: tag_player_def split: option.splits)

lemma tag_loop_role:
  "map_of ps key = Some p \<Longrightarrow>
   \<exists>p'. map_of (fst (tag_loop now ids ps)) key = Some p' \<and> role_change p p'"
proof (induction ids arbitrary: ps p)
  case Nil
  then show ?case by simp
next
  case (Cons k ids)
  obtain ps1 ev1 where s: "tag_player now k ps = (ps1, ev1)" by (cases "tag_player now k ps")
  obtain q where q: "map_of ps1 key = Some q" "role_change p q"
    using tag_player_role [OF Cons.prems, of now k] s by auto
  obtain p' where "map_of (fst (tag_loop now ids ps1)) key = Some p'" "role_change q p'"
    using Cons.IH [OF q(1)] by blast
  then show ?case using s q(2) role_change_trans by (auto split: prod.splits)
qed

lemma tag_loop_append:
  "tag_loop now (xs @ ys) ps =
     (case tag_loop now xs ps of
        (ps1, ev1) \<Rightarrow> (case tag_loop now ys ps1 of (ps2, ev2) \<Rightarrow> (ps2, ev1 @ ev2)))"
  by (induction xs arbitrary: ps) (auto split: prod.splits)

lemma tag_loop_taggers_in:
  "fst ` set (snd (tag_loop now ids ps)) \<subseteq> set ids"
proof (induction ids arbitrary: ps)
  case Nil
  then show ?case by simp
next
  case (Cons key ids)
  obtain ps1 ev1 where s: "tag_player now key ps = (ps1, ev1)" by (cases "tag_player now key ps")
  obtain ps2 ev2 where t: "tag_loop now ids ps1 = (ps2, ev2)" by (cases "tag_loop now ids ps1")
  have "ev1 = [] \<or> (\<exists>k. ev1 = [(key, k)])"
    using tag_player_events [of now key ps] s by simp
  then have a: "fst ` set ev1 \<subseteq> {key}" by auto
  have b: "fst ` set ev2 \<subseteq> set ids" using Cons.IH [of ps1] t by simp
  have "snd (tag_loop now (key # ids) ps) = ev1 @ ev2" using s t by simp
  then show ?case using a b by auto
qed

subsection \<open>One player through a whole tick\<close>

lemma tick_entry:
  assumes "distinct (map fst (players s))" "map_of (players s) key = Some p" "pid p = key"
  shows "\<exists>s' evs p1 p'. tick now s = Inr (s', evs)
           \<and> update_player (currentMap s) now key [(key, p)] = Inr [(key, p1)]
           \<and> map_of (players s') key = Some p' \<and> role_change p1 p'
           \<and> currentMap s' = currentMap s \<and> map fst (players s') = map fst (players s)"
proof -
  have mem: "key \<in> set (map fst (players s))"
    using assms(2) by (metis map_of_eq_None_iff option.distinct(1) set_map)
  obtain p1 ps1 where loop: "update_player (currentMap s) now key [(key, p)] = Inr [(key, p1)]"
      "update_loop (currentMap s) now (map fst (players s)) (players s) = Inr ps1"
      "map_of ps1 key = Some p1"
    using update_loop_local [OF assms(1) mem assms(2,3)] by blast
  have keys1: "map fst ps1 = map fst (players s)"
    using update_loop_taggers [OF loop(2)] by simp
  obtain ps2 evs where t: "tag_detection now ps1 = (ps2, evs)" by (cases "tag_detection now ps1")
  have d1: "distinct (map fst ps1)" using keys1 assms(1) by simp
  have keys2: "map fst ps2 = map fst ps1"
    using tag_loop_taggers [OF d1, of now "map fst ps1"] t by (simp add: tag_detection_def)
  obtain p' where p': "map_of ps2 key = Some p'" "role_change p1 p'"
    using tag_loop_role [OF loop(3), of now "map fst ps1"] t by (auto simp: tag_detection_def)
  have "tick now s = Inr (s\<lparr>players := ps2\<rparr>, evs)"
    using loop(2) t by (simp add: tick_def)
  then show ?thesis using loop(1) p' keys1 keys2 by auto
qed

subsection \<open>One player through a whole tick, by cases\<close>

lemma tick_frozen_entry:
  assumes "distinct (map fst (players s))" "map_of (players s) key = Some p" "pid p = key"
    and "frozen p" "now \<le> frozenUntil p"
  shows "\<exists>s' evs p'. tick now s = Inr (s', evs)
           \<and> map_of (players s') key = Some p' \<and> role_change p p'
           \<and> currentMap s' = currentMap s \<and> map fst (players s') = map fst (players s)"
proof -
  obtain s' evs p1 p' where e: "tick now s = Inr (s', evs)"
    "update_player (currentMap s) now key [(key, p)] = Inr [(key, p1)]"
    "map_of (players s') key = Some p'" "role_change p1 p'"
    "currentMap s' = currentMap s" "map fst (players s') = map fst (players s)"
    using tick_entry [OF assms(1,2,3), of now] by blast
  have own: "map_of [(key, p)] key = Some p" by simp
  have "p1 = p" using update_player_frozen [OF own assms(4,5), of "currentMap s"] e(2) by simp
  then show ?thesis using e by blast
qed

lemma tick_active_entry:
  assumes "distinct (map fst (players s))" "map_of (players s) key = Some p" "pid p = key"
    and "\<not> frozen p \<or> frozenUntil p < now"
  shows "\<exists>s' evs p3 p'. tick now s = Inr (s', evs)
           \<and> checkPortalCollision (players s) (currentMap s)
                (move_player (players s) (currentMap s) key (p\<lparr>frozen := False\<rparr>)) = Inr p3
           \<and> map_of (players s') key = Some p'
           \<and> role_change (p3\<lparr>map_name := maps_name (currentMap s),
                   walls := getWalls (currentMap s) (screenWidth p) (screenHeight p)\<rparr>) p'
           \<and> currentMap s' = currentMap s \<and> map fst (players s') = map fst (players s)"
proof -
  let ?cur = "currentMap s"
  let ?q = "p\<lparr>frozen := False\<rparr>"
  let ?moved = "move_player (players s) ?cur key ?q"
  obtain s' evs p1 p' where e: "tick now s = Inr (s', evs)"
    "update_player ?cur now key [(key, p)] = Inr [(key, p1)]"
    "map_of (players s') key = Some p'" "role_change p1 p'"
    "currentMap s' = currentMap s" "map fst (players s') = map fst (players s)"
    using tick_entry [OF assms(1,2,3), of now] by blast
  have own: "map_of [(key, p)] key = Some p" by simp
  have mv: "move_player [(key, p)] ?cur key ?q = ?moved"
    by (rule move_player_cong [OF own assms(2)]) simp_all
  have pc: "checkPortalCollision [(key, p)] ?cur ?moved = checkPortalCollision (players s) ?cur ?moved"
    by (rule checkPortalCollision_cong) (simp add: getPortalsForPlayer_def assms(2,3))
  obtain p3 where p3: "checkPortalCollision (players s) ?cur ?moved = Inr p3"
    using checkPortalCollision_total by blast
  have "update_player ?cur now key [(key, p)]
          = Inr [(key, p3\<lparr>map_name := maps_name ?cur,
                         walls := getWalls ?cur (screenWidth p) (screenHeight p)\<rparr>)]"
    using update_player_active [OF own assms(4,3), of ?cur] by (simp add: mv pc p3)
  then have p1: "p1 = p3\<lparr>map_name := maps_name ?cur,
                         walls := getWalls ?cur (screenWidth p) (screenHeight p)\<rparr>"
    using e(2) by simp
  have rc: "role_change (p3\<lparr>map_name := maps_name ?cur,
               walls := getWalls ?cur (screenWidth p) (screenHeight p)\<rparr>) p'"
    using e(4) unfolding p1 .
  show ?thesis by (intro exI conjI) (rule e(1) p3 e(3) rc e(5) e(6))+
qed

subsection \<open>Standing on a portal through ticks and inputs\<close>

lemma on_portal_index: "on_portal s key i \<Longrightarrow> i < 4"
  by (cases "currentMap s") (auto simp: on_portal_def split: option.splits)

lemma tick_on_portal:
  assumes "on_portal s key i"
  shows "\<exists>s' evs. tick now s = Inr (s', evs)
           \<and> on_portal s' key (if stays_frozen now s key then i else 3 - i)"
proof -
  from assms obtain p gp where h: "distinct (map fst (players s))"
    "map_of (players s) key = Some p" "getPortals (currentMap s) = Some gp" "pid p = key"
    "175 / 2 \<le> screenWidth p" "175 / 2 \<le> screenHeight p"
    "i < length (gp (screenWidth p) (screenHeight p))"
    "px p = portal_x (gp (screenWidth p) (screenHeight p) ! i)"
    "py p = portal_y (gp (screenWidth p) (screenHeight p) ! i)"
    by (auto simp: on_portal_def split: option.splits)
  let ?cur = "currentMap s"
  let ?w = "screenWidth p" and ?h = "screenHeight p"
  show ?thesis
  proof (cases "frozen p \<and> now \<le> frozenUntil p")
    case True
    then have sf: "stays_frozen now s key" using h(2) by (simp add: stays_frozen_def)
    obtain s' evs p' where e: "tick now s = Inr (s', evs)"
      "map_of (players s') key = Some p'" "role_change p p'"
      "currentMap s' = currentMap s" "map fst (players s') = map fst (players s)"
      using tick_frozen_entry [OF h(1,2,4), of now] True by blast
    have "on_portal s' key i"
      using h e(2,4,5) role_change_fields [OF e(3)] by (simp add: on_portal_def)
    then show ?thesis using e(1) sf by auto
  next
    case False
    then have nf: "\<not> stays_frozen now s key" using h(2) by (simp add: stays_frozen_def)
    have act: "\<not> frozen p \<or> frozenUntil p < now" using False by auto
    let ?q = "p\<lparr>frozen := False\<rparr>"
    let ?m = "move_player (players s) ?cur key ?q"
    obtain s' evs p3 p' where e: "tick now s = Inr (s', evs)"
      "checkPortalCollision (players s) ?cur ?m = Inr p3"
      "map_of (players s') key = Some p'"
      "role_change (p3\<lparr>map_name := maps_name ?cur, walls := getWalls ?cur ?w ?h\<rparr>) p'"
      "currentMap s' = currentMap s" "map fst (players s') = map fst (players s)"
      using tick_active_entry [OF h(1,2,4) act] by blast
    have inset: "PLAYER_SIZE \<le> portal_x (gp ?w ?h ! i) \<and> portal_x (gp ?w ?h ! i) \<le> ?w - PLAYER_SIZE
         \<and> PLAYER_SIZE \<le> portal_y (gp ?w ?h ! i) \<and> portal_y (gp ?w ?h ! i) \<le> ?h - PLAYER_SIZE
         \<and> target (gp ?w ?h ! i) = 3 - i"
      using teleport_portals_inset [OF h(3,5,6,7)] .
    have near: "\<bar>px ?m - px ?q\<bar> \<le> 15 / 4 \<and> \<bar>py ?m - py ?q\<bar> \<le> 15 / 4"
      by (rule move_player_near) (use inset h(8,9) in simp_all)
    have hit: "find (inside_portal (px ?m) (py ?m)) (gp ?w ?h) = Some (gp ?w ?h ! i)"
      by (rule teleport_portals_hit [OF h(3,5,6,7)]) (use near h(8,9) in simp_all)
    have look: "map_of (players s) (pid ?m) = Some p" using h(2,4) by simp
    have pc: "checkPortalCollision (players s) ?cur ?m =
                Inr (?m\<lparr>px := portal_x (gp ?w ?h ! (3 - i)), py := portal_y (gp ?w ?h ! (3 - i))\<rparr>)"
      using checkPortalCollision_find [OF look h(3)] hit inset by simp
    have p3: "p3 = ?m\<lparr>px := portal_x (gp ?w ?h ! (3 - i)), py := portal_y (gp ?w ?h ! (3 - i))\<rparr>"
      using pc e(2) by simp
    have len: "length (gp ?w ?h) = 4" using h(3) by (cases ?cur) auto
    have f: "px p' = portal_x (gp ?w ?h ! (3 - i))" "py p' = portal_y (gp ?w ?h ! (3 - i))"
      "pid p' = key" "screenWidth p' = ?w" "screenHeight p' = ?h"
      using role_change_fields [OF e(4)] h(4) by (simp_all add: p3)
    have "on_portal s' key (3 - i)"
      using h(1,3,5,6) e(3,5,6) f len by (simp add: on_portal_def)
    then show ?thesis using e(1) nf by auto
  qed
qed

lemma tick_enters_portal:
  assumes "enters_portal now s key i"
  shows "\<exists>s' evs. tick now s = Inr (s', evs) \<and> on_portal s' key i"
proof -
  let ?cur = "currentMap s"
  from assms obtain p gp where h: "distinct (map fst (players s))"
    "map_of (players s) key = Some p" "getPortals ?cur = Some gp" "pid p = key"
    "175 / 2 \<le> screenWidth p" "175 / 2 \<le> screenHeight p"
    "\<not> (frozen p \<and> now \<le> frozenUntil p)"
    by (auto simp: enters_portal_def split: option.splits)
  let ?w = "screenWidth p" and ?h = "screenHeight p"
  let ?m = "move_player (players s) ?cur key (p\<lparr>frozen := False\<rparr>)"
  from assms h(2,3) obtain entry where f:
    "find (inside_portal (px ?m) (py ?m)) (gp ?w ?h) = Some entry" "target entry = i"
    by (auto simp: enters_portal_def Let_def split: option.splits)
  have act: "\<not> frozen p \<or> frozenUntil p < now" using h(7) by auto
  obtain s' evs p3 p' where e: "tick now s = Inr (s', evs)"
    "checkPortalCollision (players s) ?cur ?m = Inr p3"
    "map_of (players s') key = Some p'"
    "role_change (p3\<lparr>map_name := maps_name ?cur, walls := getWalls ?cur ?w ?h\<rparr>) p'"
    "currentMap s' = currentMap s" "map fst (players s') = map fst (players s)"
    using tick_active_entry [OF h(1,2,4) act] by blast
  have look: "map_of (players s) (pid ?m) = Some p" using h(2,4) by simp
  have p3: "p3 = ?m\<lparr>px := portal_x (gp ?w ?h ! i), py := portal_y (gp ?w ?h ! i)\<rparr>"
    using checkPortalCollision_find [OF look h(3)] f e(2) by simp
  have len: "i < length (gp ?w ?h)"
    using catalog_targets [OF h(3) find_in_set [OF f(1)]] f(2) by simp
  have fs: "px p' = portal_x (gp ?w ?h ! i)" "py p' = portal_y (gp ?w ?h ! i)"
    "pid p' = key" "screenWidth p' = ?w" "screenHeight p' = ?h"
    using role_change_fields [OF e(4)] h(4) by (simp_all add: p3)
  have "on_portal s' key i"
    using h(1,3,5,6) e(3,5,6) fs len by (simp add: on_portal_def)
  then show ?thesis using e(1) by blast
qed

lemma set_input_on_portal:
  assumes "on_portal s key i"
  shows "on_portal (set_input socket_id inp s) key i"
proof (cases "map_of (players s) socket_id")
  case None
  then show ?thesis using assms by (simp add: set_input_def)
next
  case (Some q)
  have keys: "map fst (AList.update socket_id (q\<lparr>input := inp\<rparr>) (players s)) = map fst (players s)"
    using update_present_keys [OF Some] .
  from assms obtain p gp where h: "distinct (map fst (players s))"
    "map_of (players s) key = Some p" "getPortals (currentMap s) = Some gp" "pid p = key"
    "175 / 2 \<le> screenWidth p" "175 / 2 \<le> screenHeight p"
    "i < length (gp (screenWidth p) (screenHeight p))"
    "px p = portal_x (gp (screenWidth p) (screenHeight p) ! i)"
    "py p = portal_y (gp (screenWidth p) (screenHeight p) ! i)"
    by (auto simp: on_portal_def split: option.splits)
  have s': "set_input socket_id inp s
              = s\<lparr>players := AList.update socket_id (q\<lparr>input := inp\<rparr>) (players s)\<rparr>"
    using Some by (simp add: set_input_def)
  show ?thesis
  proof (cases "socket_id = key")
    case True
    then have "q = p" using Some h(2) by simp
    then show ?thesis unfolding s' using True h keys
      by (simp add: on_portal_def update_conv')
  next
    case False
    then show ?thesis unfolding s' using h keys
      by (simp add: on_portal_def update_conv')
  qed
qed

lemma run_on_portal: "on_portal s key i \<Longrightarrow> \<exists>j. on_portal (run es s) key j"
proof (induction es arbitrary: s i)
  case Nil
  then show ?case by (auto simp: run_def)
next
  case (Cons e es)
  have "\<exists>j. on_portal (step e s) key j"
  proof (cases e)
    case (Tick now)
    then show ?thesis using tick_on_portal [OF Cons.prems, of now]
      by (auto simp: after_tick_def)
  next
    case (Input socket_id inp)
    then show ?thesis using set_input_on_portal [OF Cons.prems] by auto
  qed
  then obtain j where "on_portal (step e s) key j" by blast
  from Cons.IH [OF this] show ?case by (simp add: run_def)
qed

section \<open>Player proximity\<close>

text \<open>
  C5 as the code has it. For players with non-zero viewport dimensions, \<open>checkCollision\<close>
  is true iff the norm of the scaled delta, both computed in the program's arithmetic
  (every operation rounded to the nearest number), is strictly below
  \<open>2 * PLAYER_SIZE = 30\<close>; and two players at the same fractions of their own viewports
  are touching, whatever the viewports are.
\<close>

theorem checkCollision_touching:
  assumes "screenWidth p1 \<noteq> 0" "screenHeight p1 \<noteq> 0" "screenWidth p2 \<noteq> 0" "screenHeight p2 \<noteq> 0"
  shows "(checkCollision p1 p2 \<longleftrightarrow> rounded_norm (rounded_delta p1 p2) < 2 * PLAYER_SIZE)
       \<and> 2 * PLAYER_SIZE = 30
       \<and> (px p1 / screenWidth p1 = px p2 / screenWidth p2 \<and>
          py p1 / screenHeight p1 = py p2 / screenHeight p2 \<longrightarrow> checkCollision p1 p2)"
proof -
  have a: "checkCollision p1 p2 \<longleftrightarrow> rounded_norm (rounded_delta p1 p2) < 2 * PLAYER_SIZE"
    using assms
    by (simp add: checkCollision_def rounded_norm_def rounded_delta_def PLAYER_SIZE_def Let_def)
  have b: "checkCollision p1 p2"
    if "px p1 / screenWidth p1 = px p2 / screenWidth p2"
       "py p1 / screenHeight p1 = py p2 / screenHeight p2"
    using assms that by (rule touching_same_spot)
  show ?thesis using a b by (simp add: PLAYER_SIZE_def)
qed

theorem checkCollision_touching_witness:
  "checkCollision (mk_player ''a'' 960 540 True False 0 1920 1080)
                  (mk_player ''b'' 480 270 False False 0 960 540)
   \<and> \<not> checkCollision (mk_player ''a'' 960 540 True False 0 1920 1080)
                    (mk_player ''b'' 600 270 False False 0 960 540)"
proof -
  let ?a = "mk_player ''a'' 960 540 True False 0 1920 1080"
  let ?b = "mk_player ''b'' 480 270 False False 0 960 540"
  let ?c = "mk_player ''b'' 600 270 False False 0 960 540"
  have d: "screenWidth ?a \<noteq> 0" "screenHeight ?a \<noteq> 0" "screenWidth ?b \<noteq> 0" "screenHeight ?b \<noteq> 0"
    by (simp_all add: mk_player_def)
  have "px ?a / screenWidth ?a = px ?b / screenWidth ?b \<and>
        py ?a / screenHeight ?a = py ?b / screenHeight ?b \<longrightarrow> checkCollision ?a ?b"
    using checkCollision_touching [OF d] by blast
  then have "checkCollision ?a ?b" by (simp add: mk_player_def)
  moreover have "\<not> checkCollision ?a ?c"
    by (rule apart_960_600) (simp_all add: mk_player_def)
  ultimately show ?thesis by blast
qed

text \<open>
  C5 as stated measures the exact norm. Two players on 1920 by 1080 viewports at
  (100, 300) and (130, 300) are exactly 30 apart, which is not strictly below 30; the
  program's quotients \<open>100 / 1920\<close> and \<open>130 / 1920\<close> are rounded, its delta comes out as
  \<open>30 - 2 ^ (-46)\<close>, and the players are judged touching.
\<close>

theorem exact_boundary_counterexample:
  "checkCollision (mk_player ''a'' 100 300 True False 0 1920 1080)
                  (mk_player ''b'' 130 300 False False 0 1920 1080)
   \<and> sqrt ((fst (scaled_delta (mk_player ''a'' 100 300 True False 0 1920 1080)
                               (mk_player ''b'' 130 300 False False 0 1920 1080)))\<^sup>2
         + (snd (scaled_delta (mk_player ''a'' 100 300 True False 0 1920 1080)
                               (mk_player ''b'' 130 300 False False 0 1920 1080)))\<^sup>2) = 30"
proof -
  have "sqrt ((30::real)\<^sup>2) = 30" by simp
  then have s: "sqrt (900::real) = 30" by simp
  have "checkCollision (mk_player ''a'' 100 300 True False 0 1920 1080)
                       (mk_player ''b'' 130 300 False False 0 1920 1080)"
    by (rule touching_100_130) (simp_all add: mk_player_def)
  then show ?thesis by (simp add: scaled_delta_def mk_player_def s)
qed

section \<open>Movement\<close>

text \<open>
  C4. The movement of a player in a tick: the speed is 3.75 for a tagger and 3
  otherwise; each pressed key contributes that displacement to its axis, unnormalised;
  the candidate is clamped per axis by \<open>max PLAYER_SIZE (min (dimension - PLAYER_SIZE) v)\<close>,
  which lies in \<open>[PLAYER_SIZE, dimension - PLAYER_SIZE]\<close> when that interval is not
  empty, with \<open>PLAYER_SIZE = 15\<close>; if the clamped candidate overlaps a wall the player is
  left as it was, otherwise both coordinates become the candidate's. A tick does this for
  every registered player \<open>p\<close> that is not frozen, whoever else is registered: the tick
  returns, and the player's record after it is the moved record passed through the
  portal check (which leaves it as it is on a map without portals), with the name of the
  map and the walls refreshed, and with the role fields that tag detection left.
\<close>

theorem movement_step:
  "let speed = (if isTagger p then 3.75 else 3);
       cx = clamp_axis (screenWidth p) (px p + axis_delta speed (left (input p)) (right (input p)));
       cy = clamp_axis (screenHeight p) (py p + axis_delta speed (up (input p)) (down (input p)));
       moved = (if checkWallCollision (players s) (currentMap s) cx cy key
                then p else p\<lparr>px := cx, py := cy\<rparr>)
   in move_candidate p = (cx, cy)
    \<and> move_player (players s) (currentMap s) key p = moved
    \<and> (2 * PLAYER_SIZE \<le> screenWidth p \<longrightarrow> PLAYER_SIZE \<le> cx \<and> cx \<le> screenWidth p - PLAYER_SIZE)
    \<and> (2 * PLAYER_SIZE \<le> screenHeight p \<longrightarrow> PLAYER_SIZE \<le> cy \<and> cy \<le> screenHeight p - PLAYER_SIZE)
    \<and> PLAYER_SIZE = 15
    \<and> (distinct (map fst (players s)) \<and> map_of (players s) key = Some p \<and> pid p = key
         \<and> \<not> frozen p \<longrightarrow>
         (\<exists>s' evs p3 p'.
             tick now s = Inr (s', evs)
           \<and> checkPortalCollision (players s) (currentMap s) moved = Inr p3
           \<and> (getPortals (currentMap s) = None \<longrightarrow> p3 = moved)
           \<and> map_of (players s') key = Some p'
           \<and> role_change (p3\<lparr>map_name := maps_name (currentMap s),
                               walls := getWalls (currentMap s) (screenWidth p) (screenHeight p)\<rparr>) p'))"
proof -
  let ?cur = "currentMap s"
  let ?moved = "move_player (players s) ?cur key p"
  have c: "move_candidate p = spec_candidate p" by (rule move_candidate_spec)
  have m: "?moved
        = (if checkWallCollision (players s) ?cur (fst (spec_candidate p)) (snd (spec_candidate p)) key
           then p else p\<lparr>px := fst (spec_candidate p), py := snd (spec_candidate p)\<rparr>)"
    by (simp add: move_player_def c split: prod.splits)
  have t: "\<exists>s' evs p3 p'.
             tick now s = Inr (s', evs)
           \<and> checkPortalCollision (players s) ?cur ?moved = Inr p3
           \<and> (getPortals ?cur = None \<longrightarrow> p3 = ?moved)
           \<and> map_of (players s') key = Some p'
           \<and> role_change (p3\<lparr>map_name := maps_name ?cur,
                               walls := getWalls ?cur (screenWidth p) (screenHeight p)\<rparr>) p'"
    if h: "distinct (map fst (players s))" "map_of (players s) key = Some p" "pid p = key"
      "\<not> frozen p"
  proof -
    obtain s' evs p1 p' where e: "tick now s = Inr (s', evs)"
      "update_player ?cur now key [(key, p)] = Inr [(key, p1)]"
      "map_of (players s') key = Some p'" "role_change p1 p'"
      using tick_entry [OF h(1,2,3), of now] by blast
    have own: "map_of [(key, p)] key = Some p" by simp
    have mv: "move_player [(key, p)] ?cur key p = ?moved"
      by (rule move_player_cong [OF own h(2)]) simp_all
    have pc: "checkPortalCollision [(key, p)] ?cur ?moved = checkPortalCollision (players s) ?cur ?moved"
      by (rule checkPortalCollision_cong) (simp add: getPortalsForPlayer_def h(2,3))
    obtain p3 where p3: "checkPortalCollision (players s) ?cur ?moved = Inr p3"
      using checkPortalCollision_total by blast
    have "update_player ?cur now key [(key, p)]
            = Inr [(key, p3\<lparr>map_name := maps_name ?cur,
                           walls := getWalls ?cur (screenWidth p) (screenHeight p)\<rparr>)]"
      using update_player_active [OF own _ h(3), of now ?cur] h(4)
      by (simp add: unfreeze_idle mv pc p3)
    then have p1: "p1 = p3\<lparr>map_name := maps_name ?cur,
                           walls := getWalls ?cur (screenWidth p) (screenHeight p)\<rparr>"
      using e(2) by simp
    have np: "getPortals ?cur = None \<longrightarrow> p3 = ?moved"
      using p3 by (auto simp: checkPortalCollision_def)
    have rc: "role_change (p3\<lparr>map_name := maps_name ?cur,
                 walls := getWalls ?cur (screenWidth p) (screenHeight p)\<rparr>) p'"
      using e(4) unfolding p1 .
    show ?thesis by (intro exI conjI) (rule e(1) p3 np e(3) rc)+
  qed
  let ?speed = "if isTagger p then 3.75 else 3 :: real"
  let ?cx = "clamp_axis (screenWidth p) (px p + axis_delta ?speed (left (input p)) (right (input p)))"
  let ?cy = "clamp_axis (screenHeight p) (py p + axis_delta ?speed (up (input p)) (down (input p)))"
  have sc: "spec_candidate p = (?cx, ?cy)" by (simp add: spec_candidate_def Let_def)
  have c': "move_candidate p = (?cx, ?cy)" using c sc by simp
  have m': "?moved = (if checkWallCollision (players s) ?cur ?cx ?cy key
                      then p else p\<lparr>px := ?cx, py := ?cy\<rparr>)"
    using m sc by simp
  have r1: "2 * PLAYER_SIZE \<le> screenWidth p \<longrightarrow> PLAYER_SIZE \<le> ?cx \<and> ?cx \<le> screenWidth p - PLAYER_SIZE"
    using clamp_axis_range [of "screenWidth p"] by blast
  have r2: "2 * PLAYER_SIZE \<le> screenHeight p \<longrightarrow> PLAYER_SIZE \<le> ?cy \<and> ?cy \<le> screenHeight p - PLAYER_SIZE"
    using clamp_axis_range [of "screenHeight p"] by blast
  have t': "distinct (map fst (players s)) \<and> map_of (players s) key = Some p \<and> pid p = key
         \<and> \<not> frozen p \<longrightarrow>
         (\<exists>s' evs p3 p'.
             tick now s = Inr (s', evs)
           \<and> checkPortalCollision (players s) ?cur ?moved = Inr p3
           \<and> (getPortals ?cur = None \<longrightarrow> p3 = ?moved)
           \<and> map_of (players s') key = Some p'
           \<and> role_change (p3\<lparr>map_name := maps_name ?cur,
                               walls := getWalls ?cur (screenWidth p) (screenHeight p)\<rparr>) p')"
    using t by blast
  have all: "move_candidate p = (?cx, ?cy)
    \<and> move_player (players s) ?cur key p = ?moved
    \<and> (2 * PLAYER_SIZE \<le> screenWidth p \<longrightarrow> PLAYER_SIZE \<le> ?cx \<and> ?cx \<le> screenWidth p - PLAYER_SIZE)
    \<and> (2 * PLAYER_SIZE \<le> screenHeight p \<longrightarrow> PLAYER_SIZE \<le> ?cy \<and> ?cy \<le> screenHeight p - PLAYER_SIZE)
    \<and> PLAYER_SIZE = 15
    \<and> (distinct (map fst (players s)) \<and> map_of (players s) key = Some p \<and> pid p = key
         \<and> \<not> frozen p \<longrightarrow>
         (\<exists>s' evs p3 p'.
             tick now s = Inr (s', evs)
           \<and> checkPortalCollision (players s) ?cur ?moved = Inr p3
           \<and> (getPortals ?cur = None \<longrightarrow> p3 = ?moved)
           \<and> map_of (players s') key = Some p'
           \<and> role_change (p3\<lparr>map_name := maps_name ?cur,
                               walls := getWalls ?cur (screenWidth p) (screenHeight p)\<rparr>) p'))"
    using c' r1 r2 t' by (simp only: PLAYER_SIZE_def simp_thms)
  show ?thesis
    unfolding Let_def using all unfolding m' .
qed

theorem movement_step_witness:
  "move_player (players walker_game) (currentMap walker_game) ''a'' walker
     = walker\<lparr>px := 103, py := 103\<rparr>
   \<and> (\<exists>s' evs p'. tick 0 walker_game = Inr (s', evs) \<and> map_of (players s') ''a'' = Some p'
         \<and> px p' = 103 \<and> py p' = 103 \<and> input p' = input walker)"
proof -
  have h: "distinct (map fst (players walker_game))" "map_of (players walker_game) ''a'' = Some walker"
    "pid walker = ''a''" "\<not> frozen walker"
    by (simp_all add: walker_game_def walker_def mk_player_def)
  have cm: "currentMap walker_game = MapPlus" by (simp add: walker_game_def)
  have v: "clamp_axis (screenWidth walker) (px walker + axis_delta 3 False True) = 103"
    "clamp_axis (screenHeight walker) (py walker + axis_delta 3 False True) = 103"
    "\<not> isTagger walker" "left (input walker) = False" "right (input walker) = True"
    "up (input walker) = False" "down (input walker) = True"
    by (simp_all add: walker_def mk_player_def clamp_axis_def axis_delta_def PLAYER_SIZE_def)
  have cw: "\<not> checkWallCollision (players walker_game) (currentMap walker_game) 103 103 ''a''"
    by (simp add: walker_game_def walker_def mk_player_def checkWallCollision_def
        getWallsForPlayer_def overlaps_def mk_wall_def PLAYER_SIZE_def)
  note ms = movement_step [of walker walker_game "''a''" 0, unfolded Let_def]
  note eq = ms [THEN conjunct2, THEN conjunct1]
  note tk = ms [THEN conjunct2, THEN conjunct2, THEN conjunct2, THEN conjunct2, THEN conjunct2,
      unfolded eq [symmetric]]
  have mp: "move_player (players walker_game) (currentMap walker_game) ''a'' walker
              = walker\<lparr>px := 103, py := 103\<rparr>"
    unfolding eq using cw by (simp add: v)
  have gp: "getPortals (currentMap walker_game) = None" by (simp add: cm)
  from tk h gp obtain s' evs p' where r: "tick 0 walker_game = Inr (s', evs)"
    "map_of (players s') ''a'' = Some p'"
    "role_change ((move_player (players walker_game) (currentMap walker_game) ''a'' walker)
         \<lparr>map_name := maps_name (currentMap walker_game),
           walls := getWalls (currentMap walker_game) (screenWidth walker) (screenHeight walker)\<rparr>) p'"
    by blast
  have "px p' = 103" "py p' = 103" "input p' = input walker"
    using role_change_fields [OF r(3)] by (simp_all add: mp)
  then show ?thesis using mp r(1,2) by blast
qed

section \<open>Portals\<close>

lemma sleeper_tick: "tick 1000 sleeper_game = Inr (sleeper_game, [])"
  unfolding tick_def sleeper_game_def
  apply (simp add: update_player_def Let_def mk_player_def move_player_def
      move_candidate_def no_input_def NORMAL_SPEED_def TAGGER_SPEED_def PLAYER_SIZE_def
      checkWallCollision_def getWallsForPlayer_def overlaps_def mk_wall_def
      checkPortalCollision_def getPortalsForPlayer_def mk_portal_def sqrt_less_iff_sq)
  apply (simp add: tag_detection_def tag_player_def)
  done

text \<open>
  C6 as the code has it. A tick on a map with portals, for a registered player. The tick
  returns. If the player is frozen and the tick does not thaw it, the update loop skips
  the portal check and the position stays. Otherwise the portal check is made once, on
  the moved player: it scans the portal list scaled to the player's viewport in order;
  at the first portal the moved player is inside of, the position becomes the coordinates
  of the portal at the entry's target index (which exists, and which differ from the
  entry's coordinates unless the viewport is 0 by 0), and nothing further is scanned;
  with no such portal the position is the moved one. That position is the player's
  position after the tick.
\<close>

theorem portal_teleport:
  assumes "distinct (map fst (players s))" "map_of (players s) key = Some p" "pid p = key"
    and "getPortals (currentMap s) = Some gp"
  shows "\<exists>s' evs p'.
           tick now s = Inr (s', evs) \<and> map_of (players s') key = Some p'
         \<and> (if frozen p \<and> now \<le> frozenUntil p
            then px p' = px p \<and> py p' = py p
            else (let m = move_player (players s) (currentMap s) key (p\<lparr>frozen := False\<rparr>);
                      portals = gp (screenWidth p) (screenHeight p)
                  in case find (inside_portal (px m) (py m)) portals of
                       None \<Rightarrow>
                         checkPortalCollision (players s) (currentMap s) m = Inr m
                       \<and> px p' = px m \<and> py p' = py m
                     | Some entry \<Rightarrow>
                         (let tp = portals ! target entry
                          in target entry < length portals
                           \<and> checkPortalCollision (players s) (currentMap s) m
                               = Inr (m\<lparr>px := portal_x tp, py := portal_y tp\<rparr>)
                           \<and> px p' = portal_x tp \<and> py p' = portal_y tp
                           \<and> (screenWidth p \<noteq> 0 \<or> screenHeight p \<noteq> 0 \<longrightarrow>
                                (portal_x tp, portal_y tp) \<noteq> (portal_x entry, portal_y entry)))))"
proof (cases "frozen p \<and> now \<le> frozenUntil p")
  case True
  obtain s' evs p' where e: "tick now s = Inr (s', evs)"
    "map_of (players s') key = Some p'" "role_change p p'"
    using tick_frozen_entry [OF assms(1,2,3), of now] True by blast
  show ?thesis using True e(1,2) role_change_fields [OF e(3)] by auto
next
  case False
  let ?cur = "currentMap s"
  let ?w = "screenWidth p" and ?h = "screenHeight p"
  let ?m = "move_player (players s) ?cur key (p\<lparr>frozen := False\<rparr>)"
  have act: "\<not> frozen p \<or> frozenUntil p < now" using False by auto
  obtain s' evs p3 p' where e: "tick now s = Inr (s', evs)"
    "checkPortalCollision (players s) ?cur ?m = Inr p3"
    "map_of (players s') key = Some p'"
    "role_change (p3\<lparr>map_name := maps_name ?cur, walls := getWalls ?cur ?w ?h\<rparr>) p'"
    using tick_active_entry [OF assms(1,2,3) act] by blast
  have pos: "px p' = px p3" "py p' = py p3" using role_change_fields [OF e(4)] by simp_all
  have look: "map_of (players s) (pid ?m) = Some p" using assms(2,3) by simp
  note pc = checkPortalCollision_find [OF look assms(4)]
  have body: "case find (inside_portal (px ?m) (py ?m)) (gp ?w ?h) of
                None \<Rightarrow>
                  checkPortalCollision (players s) ?cur ?m = Inr ?m
                \<and> px p' = px ?m \<and> py p' = py ?m
              | Some entry \<Rightarrow>
                  (let tp = gp ?w ?h ! target entry
                   in target entry < length (gp ?w ?h)
                    \<and> checkPortalCollision (players s) ?cur ?m
                        = Inr (?m\<lparr>px := portal_x tp, py := portal_y tp\<rparr>)
                    \<and> px p' = portal_x tp \<and> py p' = portal_y tp
                    \<and> (?w \<noteq> 0 \<or> ?h \<noteq> 0 \<longrightarrow>
                         (portal_x tp, portal_y tp) \<noteq> (portal_x entry, portal_y entry)))"
  proof (cases "find (inside_portal (px ?m) (py ?m)) (gp ?w ?h)")
    case None
    then show ?thesis using pc e(2) pos by simp
  next
    case (Some entry)
    then have mem: "entry \<in> set (gp ?w ?h)" by (rule find_in_set)
    show ?thesis
      using Some pc e(2) pos catalog_targets [OF assms(4) mem]
        catalog_target_elsewhere [OF assms(4) mem]
      by (auto simp: Let_def)
  qed
  show ?thesis using False e(1,3) body by (auto simp: Let_def)
qed

theorem portal_teleport_witness:
  "\<exists>s' evs p'. tick 1000 duo_game = Inr (s', evs) \<and> map_of (players s') ''b'' = Some p'
      \<and> px p' = 1440 \<and> py p' = 810"
proof -
  let ?b = "mk_player ''b'' 490 260 False False 0 1920 1080"
  let ?gp = "\<lambda>w h. [mk_portal (w * 0.25) (h * 0.25) 40 3, mk_portal (w * 0.75) (h * 0.25) 40 2,
                     mk_portal (w * 0.25) (h * 0.75) 40 1, mk_portal (w * 0.75) (h * 0.75) 40 0]"
  have h: "distinct (map fst (players duo_game))" "map_of (players duo_game) ''b'' = Some ?b"
    "pid ?b = ''b''" "getPortals (currentMap duo_game) = Some ?gp"
    by (simp_all add: duo_game_def mk_player_def)
  have m: "move_player (players duo_game) (currentMap duo_game) ''b'' (?b\<lparr>frozen := False\<rparr>) = ?b"
    by (simp add: duo_game_def mk_player_def move_player_def move_candidate_def no_input_def
        NORMAL_SPEED_def TAGGER_SPEED_def PLAYER_SIZE_def checkWallCollision_def
        getWallsForPlayer_def overlaps_def mk_wall_def)
  have f: "find (inside_portal (px ?b) (py ?b)) (?gp (screenWidth ?b) (screenHeight ?b))
             = Some (mk_portal 480 270 40 3)"
    by (simp add: mk_player_def inside_portal_def mk_portal_def sqrt_less_iff_sq)
  have nf: "\<not> (frozen ?b \<and> 1000 \<le> frozenUntil ?b)" by (simp add: mk_player_def)
  from portal_teleport [OF h, of 1000] obtain s' evs p' where
    r: "tick 1000 duo_game = Inr (s', evs)" "map_of (players s') ''b'' = Some p'"
    "px p' = portal_x (?gp (screenWidth ?b) (screenHeight ?b) ! target (mk_portal 480 270 40 3))
     \<and> py p' = portal_y (?gp (screenWidth ?b) (screenHeight ?b) ! target (mk_portal 480 270 40 3))"
    unfolding m Let_def f using nf by auto
  have "px p' = 1440" "py p' = 810" using r(3) by (simp_all add: mk_portal_def mk_player_def)
  then show ?thesis using r(1,2) by blast
qed

text \<open>
  C6 as stated has the portal check made for every player in every tick. A player frozen
  until 5000 is inside the top-left portal of the teleport map (10 from its centre in
  both directions); the tick at 1000 leaves it where it is, not on the linked
  bottom-right portal at (1440, 810).
\<close>

theorem frozen_in_portal_counterexample:
  "role_flags (players sleeper_game) = [(''a'', False, True, 5000), (''b'', True, False, 0)]
   \<and> positions (players sleeper_game) = [(''a'', 470, 280), (''b'', 1200, 800)]
   \<and> find (inside_portal 470 280)
        (getPortalsForPlayer (players sleeper_game) (currentMap sleeper_game) ''a'')
       = Some (mk_portal 480 270 40 3)
   \<and> tick 1000 sleeper_game = Inr (sleeper_game, [])"
  unfolding sleeper_tick
  by (simp add: sleeper_game_def role_flags_def positions_def mk_player_def
      getPortalsForPlayer_def inside_portal_def mk_portal_def sqrt_less_iff_sq)

section \<open>Freezing\<close>

text \<open>
  C8 as the code has it. In the update phase of a tick with timestamp \<open>now\<close>, a frozen
  player whose \<open>frozenUntil\<close> is strictly less than \<open>now\<close> is unfrozen and is then
  processed (movement, portal check) exactly as the same player with \<open>frozen = false\<close>,
  so it enters tag detection unfrozen; a frozen player with \<open>now \<le> frozenUntil\<close> is left
  untouched by the update phase and by tag detection, and takes part in no tag.
\<close>

theorem frozen_player_tick:
  assumes "distinct (map fst ps)" "map_of ps key = Some p" "pid p = key" "frozen p"
  shows "\<exists>p' ps1. update_loop cur now (map fst ps) ps = Inr ps1 \<and> map_of ps1 key = Some p'
     \<and> update_player cur now key [(key, p)] = Inr [(key, p')]
     \<and> (if frozenUntil p < now
        then \<not> frozen p'
           \<and> update_player cur now key [(key, p)]
               = update_player cur now key [(key, p\<lparr>frozen := False\<rparr>)]
        else p' = p
           \<and> map_of (fst (tag_detection now ps1)) key = Some p
           \<and> key \<notin> fst ` set (snd (tag_detection now ps1))
           \<and> key \<notin> snd ` set (snd (tag_detection now ps1)))"
proof -
  have mem: "key \<in> set (map fst ps)"
    using assms(2) by (metis map_of_eq_None_iff option.distinct(1) set_map)
  obtain p' ps1 where loop: "update_player cur now key [(key, p)] = Inr [(key, p')]"
      "update_loop cur now (map fst ps) ps = Inr ps1" "map_of ps1 key = Some p'"
    using update_loop_local [OF assms(1) mem assms(2,3)] by blast
  show ?thesis
  proof (cases "frozenUntil p < now")
    case True
    let ?q = "p\<lparr>frozen := False\<rparr>"
    have mv: "move_player [(key, ?q)] cur key ?q = move_player [(key, p)] cur key ?q"
      by (rule move_player_cong [where q = ?q and q' = p]) simp_all
    have pc: "checkPortalCollision [(key, ?q)] cur (move_player [(key, p)] cur key ?q)
                = checkPortalCollision [(key, p)] cur (move_player [(key, p)] cur key ?q)"
      by (rule checkPortalCollision_cong)
         (simp add: assms getPortalsForPlayer_def split: option.splits)
    have a: "update_player cur now key [(key, p)] =
       (case checkPortalCollision [(key, p)] cur (move_player [(key, p)] cur key ?q) of
          Inl e \<Rightarrow> Inl e
        | Inr p3 \<Rightarrow> Inr [(key, p3\<lparr>map_name := maps_name cur,
               walls := getWalls cur (screenWidth p) (screenHeight p)\<rparr>)])"
      using update_player_active [of "[(key, p)]" key p now cur] True assms(3)
      by (simp split: sum.splits)
    have b: "update_player cur now key [(key, ?q)] =
       (case checkPortalCollision [(key, p)] cur (move_player [(key, p)] cur key ?q) of
          Inl e \<Rightarrow> Inl e
        | Inr p3 \<Rightarrow> Inr [(key, p3\<lparr>map_name := maps_name cur,
               walls := getWalls cur (screenWidth p) (screenHeight p)\<rparr>)])"
      using update_player_active [of "[(key, ?q)]" key ?q now cur] assms(3)
      by (simp add: mv pc split: sum.splits)
    obtain p3 where p3: "checkPortalCollision [(key, p)] cur (move_player [(key, p)] cur key ?q) = Inr p3"
      using checkPortalCollision_total by blast
    have "p3 = (move_player [(key, p)] cur key ?q)\<lparr>px := px p3, py := py p3\<rparr>"
      using p3 by (rule checkPortalCollision_fields)
    then have "frozen p3 = frozen (move_player [(key, p)] cur key ?q)"
      by (metis player.select_convs(7) player.surjective player.update_convs(3,4))
    then have "\<not> frozen p3" by simp
    then have "\<not> frozen p'" using loop(1) a p3 by auto
    then show ?thesis using True loop a b by simp
  next
    case False
    then have "update_player cur now key [(key, p)] = Inr [(key, p)]"
      using update_player_frozen [of "[(key, p)]" key p now cur] assms(4) by simp
    then have eq: "p' = p" using loop(1) by simp
    have "map_of (fst (tag_detection now ps1)) key = Some p
           \<and> key \<notin> fst ` set (snd (tag_detection now ps1))
           \<and> key \<notin> snd ` set (snd (tag_detection now ps1))"
      unfolding tag_detection_def
      using tag_loop_frozen [of ps1 key p now "map fst ps1"] loop(3) eq assms(4) by simp
    then show ?thesis using False loop eq by simp
  qed
qed

theorem frozen_player_tick_witness:
  "update_loop MapPlus 5001 [''a''] [(''a'', thawing)]
     = Inr [(''a'', thawing\<lparr>px := 103, frozen := False, map_name := ''Plus'',
                            walls := getWalls MapPlus 1920 1080\<rparr>)]
   \<and> update_loop MapPlus 4999 [''a''] [(''a'', thawing)] = Inr [(''a'', thawing)]"
  using frozen_player_tick [of "[(''a'', thawing)]" "''a''" thawing MapPlus 5001]
    frozen_player_tick [of "[(''a'', thawing)]" "''a''" thawing MapPlus 4999]
  apply (simp add: thawing_def icy_def mk_player_def)
  apply (simp add: update_player_def Let_def thawing_def icy_def mk_player_def move_player_def
      move_candidate_def NORMAL_SPEED_def TAGGER_SPEED_def PLAYER_SIZE_def
      checkWallCollision_def getWallsForPlayer_def overlaps_def mk_wall_def
      checkPortalCollision_def)
  done

text \<open>
  C8 as stated asks for the thaw when \<open>now \<ge> frozenUntil\<close>; the code tests
  \<open>now > frozenUntil\<close>, so at \<open>now = frozenUntil\<close> the player stays frozen.
\<close>

theorem unfreeze_boundary_counterexample:
  "frozen icy \<and> 5000 \<ge> frozenUntil icy
   \<and> update_loop MapPlus 5000 [''a''] [(''a'', icy)] = Inr [(''a'', icy)]"
  by (simp add: update_player_def Let_def icy_def mk_player_def)

section \<open>Tag detection\<close>

text \<open>
  C1. In the tag-detection phase of a tick, at the moment the outer loop reaches a
  player \<open>key\<close> that is then a tagger and not frozen (\<open>ps1\<close> is the registry at that
  moment, \<open>ev1\<close> the tags recorded so far): the registry is scanned in its order; at the
  first other entry that is not a tagger, not frozen and touching, the tagger loses the
  role and is frozen until \<open>now + 5000\<close>, the touched player becomes the tagger and is
  unfrozen, exactly one tag is recorded and the scan stops; with no such entry nothing
  changes. The phase then goes on from that registry with the ids after \<open>key\<close>, and its
  result is the result of these three parts. The tagger's record set by the swap is its
  record at the end of the phase, and \<open>key\<close> tags nobody before or after: at most one
  tag per tagger per tick.
\<close>

theorem tag_first_candidate:
  assumes "distinct (map fst ps)" "map fst ps = pre @ key # post"
    and "tag_loop now pre ps = (ps1, ev1)"
    and "map_of ps1 key = Some tagger" "isTagger tagger" "\<not> frozen tagger"
  shows "\<exists>ps2 ev2 ps3 ev3.
           tag_player now key ps1 = (ps2, ev2) \<and> tag_loop now post ps2 = (ps3, ev3)
         \<and> tag_detection now ps = (ps3, ev1 @ ev2 @ ev3)
         \<and> (case find (tag_target key tagger) ps1 of
               None \<Rightarrow> ps2 = ps1 \<and> ev2 = []
             | Some e \<Rightarrow>
                 ps2 = AList.update (fst e) ((snd e)\<lparr>isTagger := True, frozen := False\<rparr>)
                         (AList.update key
                            (tagger\<lparr>isTagger := False, frozen := True,
                                    frozenUntil := now + 5000\<rparr>) ps1)
               \<and> ev2 = [(key, fst e)]
               \<and> map_of ps3 key
                   = Some (tagger\<lparr>isTagger := False, frozen := True, frozenUntil := now + 5000\<rparr>))
         \<and> key \<notin> fst ` set ev1 \<and> key \<notin> fst ` set ev3"
proof -
  obtain ps2 ev2 where s2: "tag_player now key ps1 = (ps2, ev2)"
    by (cases "tag_player now key ps1")
  obtain ps3 ev3 where s3: "tag_loop now post ps2 = (ps3, ev3)"
    by (cases "tag_loop now post ps2")
  have keys1: "map fst ps1 = map fst ps"
    using tag_loop_taggers [OF assms(1), of now pre] assms(3) by simp
  then have d1: "distinct (map fst ps1)" using assms(1) by simp
  have whole: "tag_detection now ps = (ps3, ev1 @ ev2 @ ev3)"
    unfolding tag_detection_def assms(2) tag_loop_append
    using assms(3) s2 s3 by simp
  have notin: "key \<notin> set pre" "key \<notin> set post"
    using assms(1) unfolding assms(2) by auto
  have e1: "key \<notin> fst ` set ev1"
    using tag_loop_taggers_in [of now pre ps] assms(3) notin(1) by auto
  have e3: "key \<notin> fst ` set ev3"
    using tag_loop_taggers_in [of now post ps2] s3 notin(2) by auto
  have scan: "tag_player now key ps1 = tag_scan now key (map fst ps1) ps1"
    using assms(4,5,6) by (simp add: tag_player_def)
  have step: "case find (tag_target key tagger) ps1 of
               None \<Rightarrow> ps2 = ps1 \<and> ev2 = []
             | Some e \<Rightarrow>
                 ps2 = AList.update (fst e) ((snd e)\<lparr>isTagger := True, frozen := False\<rparr>)
                         (AList.update key
                            (tagger\<lparr>isTagger := False, frozen := True,
                                    frozenUntil := now + 5000\<rparr>) ps1)
               \<and> ev2 = [(key, fst e)]
               \<and> map_of ps3 key
                   = Some (tagger\<lparr>isTagger := False, frozen := True, frozenUntil := now + 5000\<rparr>)"
  proof (cases "find (tag_target key tagger) ps1")
    case None
    then show ?thesis
      using tag_scan_find [OF d1 assms(4), of ps1 now] scan s2 by simp
  next
    case (Some e)
    let ?t = "tagger\<lparr>isTagger := False, frozen := True, frozenUntil := now + 5000\<rparr>"
    have r: "ps2 = AList.update (fst e) ((snd e)\<lparr>isTagger := True, frozen := False\<rparr>)
                     (AList.update key ?t ps1)" "ev2 = [(key, fst e)]"
      using tag_scan_find [OF d1 assms(4), of ps1 now] scan s2 Some
      by (simp_all add: FREEZE_TIME_def)
    have "tag_target key tagger e" using Some by (metis find_Some_iff)
    then have "fst e \<noteq> key" by (simp add: tag_target_def)
    then have "map_of ps2 key = Some ?t" unfolding r(1) by (simp add: update_conv')
    moreover have "frozen ?t" by simp
    ultimately have "map_of ps3 key = Some ?t"
      using tag_loop_frozen [of ps2 key ?t now post] s3 by simp
    then show ?thesis using Some r by simp
  qed
  show ?thesis using s2 s3 whole step e1 e3 by blast
qed

theorem tag_first_candidate_witness:
  "\<exists>ps3 ev3. tag_detection 1000 trio = (ps3, (''a'', ''b'') # ev3)
      \<and> map_of ps3 ''a'' = Some (mk_player ''a'' 500 300 False True 6000 1920 1080)
      \<and> ''a'' \<notin> fst ` set ev3"
proof -
  let ?a = "mk_player ''a'' 500 300 True False 0 1920 1080"
  have h: "distinct (map fst trio)" "map fst trio = [] @ ''a'' # [''b'', ''c'']"
    "tag_loop 1000 [] trio = (trio, [])" "map_of trio ''a'' = Some ?a" "isTagger ?a" "\<not> frozen ?a"
    by (simp_all add: trio_def mk_player_def)
  have f: "find (tag_target ''a'' ?a) trio = Some (''b'', mk_player ''b'' 510 300 False False 0 1920 1080)"
    by (simp add: trio_def tag_target_def mk_player_def touching_500_510)
  from tag_first_candidate [OF h] show ?thesis
    unfolding f by (auto simp: mk_player_def)
qed

lemma trio_update:
  "update_loop MapPlus 1000 [''a'', ''b'', ''c''] trio =
     Inr (map (\<lambda>(k, p). (k, p\<lparr>map_name := ''Plus'', walls := getWalls MapPlus 1920 1080\<rparr>)) trio)"
  by (simp add: update_player_def Let_def trio_def mk_player_def move_player_def
      move_candidate_def no_input_def NORMAL_SPEED_def TAGGER_SPEED_def PLAYER_SIZE_def
      checkWallCollision_def getWallsForPlayer_def overlaps_def mk_wall_def
      checkPortalCollision_def)

lemma trio_tick:
  "map_sum (\<lambda>e. e) (\<lambda>(s, evs). (role_flags (players s), evs)) (tick 1000 trio_game)
     = Inr ([(''a'', False, True, 6000), (''b'', False, True, 6000), (''c'', True, False, 0)],
            [(''a'', ''b''), (''b'', ''c'')])"
  unfolding tick_def trio_game_def
  apply (simp add: trio_update [unfolded trio_def, simplified] trio_def)
  apply (simp add: tag_detection_def tag_player_def mk_player_def role_flags_def
      touching_500_510 touching_510_520 FREEZE_TIME_def)
  done

text \<open>
  C10. The role can pass twice in one tick. Three non-frozen players \<open>a\<close>, \<open>b\<close>, \<open>c\<close>
  stand 10 apart in registry order and \<open>a\<close> is the tagger: the tick records the tags
  \<open>a \<rightarrow> b\<close> and then \<open>b \<rightarrow> c\<close>, since \<open>b\<close>, tagged while the outer loop was at \<open>a\<close>, is
  an unfrozen tagger when the loop reaches it. Afterwards \<open>c\<close> is the tagger and both \<open>a\<close>
  and \<open>b\<close> are frozen.
\<close>

theorem tag_chain_in_one_tick:
  "\<exists>s. tick 1000 trio_game = Inr (s, [(''a'', ''b''), (''b'', ''c'')])
      \<and> role_flags (players trio_game)
          = [(''a'', True, False, 0), (''b'', False, False, 0), (''c'', False, False, 0)]
      \<and> role_flags (players s)
          = [(''a'', False, True, 6000), (''b'', False, True, 6000), (''c'', True, False, 0)]"
proof -
  have "role_flags (players trio_game)
          = [(''a'', True, False, 0), (''b'', False, False, 0), (''c'', False, False, 0)]"
    by (simp add: trio_game_def trio_def role_flags_def mk_player_def)
  then show ?thesis
    using trio_tick by (cases "tick 1000 trio_game") auto
qed

theorem tag_chain_in_one_tick_witness:
  "map_sum (\<lambda>e. e) (\<lambda>(s, evs). length evs) (tick 1000 trio_game) = Inr 2"
  using tag_chain_in_one_tick by auto

section \<open>Spawn placement\<close>

text \<open>
  C2 at the call made while handling a join. The joining player is not yet in the
  registry, so \<open>getWallsForPlayer\<close> gives no walls, the first sample passes the wall
  test and is returned. On the plus map at 1920 by 1080, with the draws 0.25 and 0.5,
  \<open>findSafeSpawn\<close> returns (530, 540) after one sample: a position that overlaps the
  horizontal bar of the active map and is not the viewport centre; the join stores it.
\<close>

theorem join_spawn_unchecked:
  "findSafeSpawn unlucky 0 (players empty_game) (currentMap empty_game) ''a'' 1920 1080
     = (530, 540, 2)
   \<and> wall_loop 530 540 (getWalls (currentMap empty_game) 1920 1080)
   \<and> ((530::real), (540::real)) \<noteq> (1920 / 2, 1080 / 2)
   \<and> positions (players (fst (join unlucky 0 ''a'' hello empty_game))) = [(''a'', 530, 540)]"
  by (simp add: spawn_unregistered empty_game_def unlucky_draws overlaps_def mk_wall_def
      PLAYER_SIZE_def join_def hello_def or_default_def positions_def randomColor_def
      split: prod.splits)

theorem join_spawn_unchecked_witness:
  "wall_loop (fst (findSafeSpawn unlucky 0 [] MapPlus ''a'' 1920 1080))
             (fst (snd (findSafeSpawn unlucky 0 [] MapPlus ''a'' 1920 1080)))
             (getWalls MapPlus 1920 1080)"
proof -
  have "findSafeSpawn unlucky 0 [] MapPlus ''a'' 1920 1080 = (530, 540, 2)"
    and "wall_loop 530 540 (getWalls MapPlus 1920 1080)"
    using join_spawn_unchecked unfolding empty_game_def
    by (simp_all add: overlaps_def mk_wall_def PLAYER_SIZE_def)
  then show ?thesis by simp
qed

section \<open>Map rotation\<close>

lemma lucky_rotation:
  "rotate_map lucky 0 solo_game
     = Some (\<lparr>players = [(''a'', mk_player ''a'' 315 210 True False 0 1920 1080)],
              currentMap = MapTeleport\<rparr>, 3)"
  by (simp add: rotate_map_def solo_game_def pick_new_map.simps [of lucky 0] mapKeys_def
      random_index_def lucky_draws findSafeSpawn_def spawn_loop.simps [of lucky "Suc 0" 0]
      mk_player_def checkWallCollision_def getWallsForPlayer_def overlaps_def mk_wall_def
      PLAYER_SIZE_def Let_def)

text \<open>
  C7. A map-rotation event on a registry with distinct ids, with a random source that
  at some draw picks a map other than the active one (the catalog has four, and the
  selection loop returns only then). The event returns; the active map is a map of the
  catalog different from the previous one; the ids and their order are unchanged; and
  every player keeps all fields but the position, which is the result of a
  \<open>findSafeSpawn\<close> call for that player on the new map: it overlaps no wall of the new
  map at the player's own viewport, or it is the viewport centre after 100 samples (200
  draws).
\<close>

theorem rotation_changes_map:
  assumes "distinct (map fst (players s))"
    and "mapKeys ! random_index rnd (k + n) (length mapKeys) \<noteq> currentMap s"
  shows "\<exists>s' k'. rotate_map rnd k s = Some (s', k')
           \<and> currentMap s' \<noteq> currentMap s \<and> currentMap s' \<in> set mapKeys
           \<and> map fst (players s') = map fst (players s)
           \<and> (\<forall>key p. map_of (players s) key = Some p \<longrightarrow>
                (\<exists>p'. map_of (players s') key = Some p' \<and> respawned rnd (currentMap s') key p p'))"
proof -
  obtain m k1 where m: "pick_new_map rnd k (currentMap s) = Some (m, k1)"
      "m \<noteq> currentMap s" "m \<in> set mapKeys"
    using pick_new_map_returns [OF assms(2)] by blast
  obtain ps1 k2 where r: "respawn_loop rnd k1 m (map fst (players s)) (players s) = (ps1, k2)"
    by (cases "respawn_loop rnd k1 m (map fst (players s)) (players s)") auto
  have rot: "rotate_map rnd k s = Some (\<lparr>players = ps1, currentMap = m\<rparr>, k2)"
    using m r by (simp add: rotate_map_def)
  have props: "map fst ps1 = map fst (players s)
       \<and> (\<forall>key p. map_of (players s) key = Some p \<longrightarrow>
            (if key \<in> set (map fst (players s))
             then (\<exists>p'. map_of ps1 key = Some p' \<and> respawned rnd m key p p')
             else map_of ps1 key = Some p))"
    using respawn_loop_props [OF assms(1) r] .
  have dom: "key \<in> set (map fst (players s))" if "map_of (players s) key = Some p" for key p
    using that by (metis map_of_eq_None_iff option.distinct(1) set_map)
  show ?thesis
    using rot m props dom by auto
qed

theorem rotation_changes_map_witness:
  "distinct (map fst (players solo_game))
   \<and> mapKeys ! random_index lucky (0 + 0) (length mapKeys) \<noteq> currentMap solo_game
   \<and> rotate_map lucky 0 solo_game
       = Some (\<lparr>players = [(''a'', mk_player ''a'' 315 210 True False 0 1920 1080)],
                currentMap = MapTeleport\<rparr>, 3)"
proof -
  have h1: "distinct (map fst (players solo_game))" by (simp add: solo_game_def)
  have h2: "mapKeys ! random_index lucky (0 + 0) (length mapKeys) \<noteq> currentMap solo_game"
    by (simp add: solo_game_def mapKeys_def random_index_def lucky_draws)
  from rotation_changes_map [OF h1 h2] obtain s' k' where
    "rotate_map lucky 0 solo_game = Some (s', k')" "currentMap s' \<noteq> currentMap solo_game"
    by blast
  then show ?thesis using h1 h2 lucky_rotation by simp
qed

section \<open>Standing on a portal\<close>

lemma duo_tick1: "tick 1000 duo_game = Inr (duo_after1, [(''a'', ''b'')])"
  unfolding tick_def duo_game_def duo_after1_def
  apply (simp add: update_player_def Let_def mk_player_def move_player_def
      move_candidate_def no_input_def NORMAL_SPEED_def TAGGER_SPEED_def PLAYER_SIZE_def
      checkWallCollision_def getWallsForPlayer_def overlaps_def mk_wall_def
      checkPortalCollision_def getPortalsForPlayer_def mk_portal_def sqrt_less_iff_sq)
  apply (simp add: tag_detection_def tag_player_def touching_same_spot FREEZE_TIME_def)
  done

lemma duo_tick2: "tick 1017 duo_after1 = Inr (duo_after2, [])"
  unfolding tick_def duo_after1_def duo_after2_def
  apply (simp add: update_player_def Let_def mk_player_def move_player_def
      move_candidate_def no_input_def NORMAL_SPEED_def TAGGER_SPEED_def PLAYER_SIZE_def
      checkWallCollision_def getWallsForPlayer_def overlaps_def mk_wall_def
      checkPortalCollision_def getPortalsForPlayer_def mk_portal_def sqrt_less_iff_sq)
  apply (simp add: tag_detection_def tag_player_def FREEZE_TIME_def)
  done

lemma duo_after_ticks:
  "after_tick 1000 duo_game = duo_after1" "after_tick 1017 duo_after1 = duo_after2"
  by (simp_all add: after_tick_def duo_tick1 duo_tick2)

lemma small_tick: "positions (players (after_tick 0 small_game)) = [(''a'', 20, 60)]"
  unfolding after_tick_def tick_def small_game_def
  apply (simp add: update_player_def Let_def mk_player_def move_player_def
      move_candidate_def NORMAL_SPEED_def TAGGER_SPEED_def PLAYER_SIZE_def
      checkWallCollision_def getWallsForPlayer_def overlaps_def mk_wall_def
      checkPortalCollision_def getPortalsForPlayer_def mk_portal_def sqrt_less_iff_sq)
  apply (simp add: tag_detection_def tag_player_def positions_def)
  done

lemma runner_resized:
  "screenSize lucky 0 ''a'' 3840 2160 runner_game
     = (\<lparr>players = [(''a'', runner\<lparr>screenWidth := 3840, screenHeight := 2160\<rparr>)],
         currentMap = MapTeleport\<rparr>, 0)"
  by (simp add: screenSize_def runner_game_def runner_def mk_player_def Let_def
      checkWallCollision_def getWallsForPlayer_def overlaps_def mk_wall_def PLAYER_SIZE_def)

lemma resized_tick:
  "positions (players (after_tick 0
      \<lparr>players = [(''a'', runner\<lparr>screenWidth := 3840, screenHeight := 2160\<rparr>)],
        currentMap = MapTeleport\<rparr>)) = [(''a'', 1436.25, 806.25)]"
  unfolding after_tick_def tick_def runner_def
  apply (simp add: update_player_def Let_def mk_player_def move_player_def
      move_candidate_def NORMAL_SPEED_def TAGGER_SPEED_def PLAYER_SIZE_def
      checkWallCollision_def getWallsForPlayer_def overlaps_def mk_wall_def
      checkPortalCollision_def getPortalsForPlayer_def mk_portal_def sqrt_less_iff_sq)
  apply (simp add: tag_detection_def tag_player_def positions_def)
  done

lemma runner_rotated:
  "rotate_map lucky 0 runner_game
     = Some (\<lparr>players = [(''a'', runner\<lparr>px := 315, py := 210\<rparr>)], currentMap = MapPlus\<rparr>, 4)"
  by (simp add: rotate_map_def runner_game_def pick_new_map.simps [of lucky 0]
      pick_new_map.simps [of lucky "Suc 0"] mapKeys_def
      random_index_def lucky_draws findSafeSpawn_def spawn_loop.simps [of lucky "Suc (Suc 0)" 0]
      runner_def mk_player_def checkWallCollision_def getWallsForPlayer_def overlaps_def
      mk_wall_def PLAYER_SIZE_def Let_def)

lemma rotated_tick:
  "positions (players (after_tick 0
      \<lparr>players = [(''a'', runner\<lparr>px := 315, py := 210\<rparr>)], currentMap = MapPlus\<rparr>))
     = [(''a'', 311.25, 206.25)]"
  unfolding after_tick_def tick_def runner_def
  apply (simp add: update_player_def Let_def mk_player_def move_player_def
      move_candidate_def NORMAL_SPEED_def TAGGER_SPEED_def PLAYER_SIZE_def
      checkWallCollision_def getWallsForPlayer_def overlaps_def mk_wall_def
      checkPortalCollision_def getPortalsForPlayer_def)
  apply (simp add: tag_detection_def tag_player_def positions_def)
  done

text \<open>
  C9 as the code has it. A registered player, in a viewport at least 87.5 wide and high
  (so that the portals are out of each other's reach), walks into a portal in a tick in
  which it is not kept frozen: after that tick it stands on the exact centre of the
  target portal \<open>i\<close>. From then on, through any sequence of ticks and input messages
  (the map and the viewport staying as they are), it stands on the centre of some
  portal. More precisely, for every state \<open>t\<close> in which the player stands on the centre
  of a portal \<open>j\<close>: a tick returns, and after it the player stands on the centre of the
  linked portal \<open>3 - j\<close>, another one, whatever the input, unless the tick keeps the
  player frozen, and then it stands where it stood: no portal check, no teleport; and an
  input message leaves it where it stands. Such a player cannot leave by movement.
\<close>

theorem portal_return:
  assumes "enters_portal now s key i"
  shows "(\<exists>s' evs. tick now s = Inr (s', evs) \<and> on_portal s' key i
            \<and> (\<forall>es. \<exists>j. on_portal (run es s') key j))
       \<and> (\<forall>t j. on_portal t key j \<longrightarrow>
            3 - j \<noteq> j
          \<and> (\<forall>time. \<exists>t' evs. tick time t = Inr (t', evs)
                \<and> on_portal t' key (if stays_frozen time t key then j else 3 - j))
          \<and> (\<forall>socket_id inp. on_portal (set_input socket_id inp t) key j))"
proof -
  obtain s' evs where e: "tick now s = Inr (s', evs)" "on_portal s' key i"
    using tick_enters_portal [OF assms] by blast
  have a: "\<forall>es. \<exists>j. on_portal (run es s') key j"
    using run_on_portal [OF e(2)] by blast
  have b: "3 - j \<noteq> j" if "on_portal t key j" for t j
    using on_portal_index [OF that] by arith
  show ?thesis
    using e a b tick_on_portal set_input_on_portal by blast
qed

theorem portal_return_witness:
  "enters_portal 0 runner_game ''a'' 0
   \<and> (\<exists>s' evs. tick 0 runner_game = Inr (s', evs) \<and> on_portal s' ''a'' 0
        \<and> (\<exists>j. on_portal (run [Tick 17, Input ''a'' no_input, Tick 34] s') ''a'' j)
        \<and> (\<exists>t' evs'. tick 17 s' = Inr (t', evs')
              \<and> on_portal t' ''a'' (if stays_frozen 17 s' ''a'' then 0 else 3)))"
proof -
  have m: "move_player (players runner_game) (currentMap runner_game) ''a'' (runner\<lparr>frozen := False\<rparr>)
             = runner\<lparr>frozen := False, px := 1436.25, py := 806.25\<rparr>"
    by (simp add: runner_game_def runner_def mk_player_def move_player_def move_candidate_def
        NORMAL_SPEED_def TAGGER_SPEED_def PLAYER_SIZE_def checkWallCollision_def
        getWallsForPlayer_def overlaps_def mk_wall_def)
  have r0: "distinct (map fst (players runner_game))"
    "map_of (players runner_game) ''a'' = Some runner"
    "getPortals (currentMap runner_game) = Some (\<lambda>w h.
       [mk_portal (w * 0.25) (h * 0.25) 40 3, mk_portal (w * 0.75) (h * 0.25) 40 2,
        mk_portal (w * 0.25) (h * 0.75) 40 1, mk_portal (w * 0.75) (h * 0.75) 40 0])"
    by (simp_all add: runner_game_def)
  have h: "enters_portal 0 runner_game ''a'' 0"
    apply (simp only: enters_portal_def r0 option.case Let_def m)
    apply (simp add: runner_def mk_player_def inside_portal_def mk_portal_def sqrt_less_iff_sq
        power2_eq_square)
    done
  from portal_return [OF h] obtain s' evs where
    r: "tick 0 runner_game = Inr (s', evs)" "on_portal s' ''a'' 0"
      "\<forall>es. \<exists>j. on_portal (run es s') ''a'' j"
    and g: "\<forall>t j. on_portal t ''a'' j \<longrightarrow>
            (\<forall>time. \<exists>t' evs. tick time t = Inr (t', evs)
                \<and> on_portal t' ''a'' (if stays_frozen time t ''a'' then j else 3 - j))"
    by blast
  from g r(2) obtain t' evs' where
    "tick 17 s' = Inr (t', evs')" "on_portal t' ''a'' (if stays_frozen 17 s' ''a'' then 0 else 3 - 0)"
    by blast
  then show ?thesis using h r by auto
qed

text \<open>
  C9 as stated has the portal check fire on every subsequent tick, and the player go
  back and forth between the linked portals. Four runs against it. Frozen: two players
  step into the top-left portal in the same tick; both are carried to the bottom-right
  portal, where the tagger \<open>a\<close> tags \<open>b\<close> and is frozen; on the next tick \<open>b\<close> is carried
  back, but \<open>a\<close>, frozen, stays. Small viewport: at 80 by 80 the portals are 40 apart;
  a tagger on the centre of the bottom-right portal (60, 60), linked to the top-left one
  (20, 20), holds up, comes within reach of the top-right portal, scanned first, and is
  carried to the bottom-left one (20, 60). Resize: a tagger on the centre of the
  bottom-right portal at 1920 by 1080 sends a \<open>screenSize\<close> of 3840 by 2160; its position
  stays, the portals move away from it, and the next tick is a plain move. Rotation: the
  map rotates to the plus map, the player is placed again, and the next tick is a plain
  move.
\<close>

theorem frozen_on_portal_counterexample:
  "positions (players duo_game) = [(''a'', 470, 280), (''b'', 490, 260)]
   \<and> positions (players (after_tick 1000 duo_game)) = [(''a'', 1440, 810), (''b'', 1440, 810)]
   \<and> role_flags (players (after_tick 1000 duo_game))
       = [(''a'', False, True, 6000), (''b'', True, False, 0)]
   \<and> positions (players (after_tick 1017 (after_tick 1000 duo_game)))
       = [(''a'', 1440, 810), (''b'', 480, 270)]
   \<and> positions (players small_game) = [(''a'', 60, 60)]
   \<and> getPortalsForPlayer (players small_game) (currentMap small_game) ''a''
       = [mk_portal 20 20 40 3, mk_portal 60 20 40 2, mk_portal 20 60 40 1, mk_portal 60 60 40 0]
   \<and> positions (players (after_tick 0 small_game)) = [(''a'', 20, 60)]
   \<and> positions (players runner_game) = [(''a'', 1440, 810)]
   \<and> getPortalsForPlayer (players runner_game) (currentMap runner_game) ''a'' ! 3
       = mk_portal 1440 810 40 0
   \<and> positions (players (fst (screenSize lucky 0 ''a'' 3840 2160 runner_game)))
       = [(''a'', 1440, 810)]
   \<and> positions (players (after_tick 0 (fst (screenSize lucky 0 ''a'' 3840 2160 runner_game))))
       = [(''a'', 1436.25, 806.25)]
   \<and> rotate_map lucky 0 runner_game
       = Some (\<lparr>players = [(''a'', runner\<lparr>px := 315, py := 210\<rparr>)], currentMap = MapPlus\<rparr>, 4)
   \<and> positions (players (after_tick 0
        \<lparr>players = [(''a'', runner\<lparr>px := 315, py := 210\<rparr>)], currentMap = MapPlus\<rparr>))
       = [(''a'', 311.25, 206.25)]"
  unfolding duo_after_ticks small_tick runner_resized fst_conv resized_tick runner_rotated
    rotated_tick
  by (simp add: duo_game_def duo_after1_def duo_after2_def small_game_def runner_game_def
      runner_def positions_def role_flags_def mk_player_def getPortalsForPlayer_def mk_portal_def)

section \<open>The tagger invariant\<close>

text \<open>
  C3 at a second join of a registered id. The first join into an empty registry makes
  the player the tagger. A second \<open>join\<close> event on the same socket finds the registry
  not empty, so \<open>isFirstPlayer\<close> is false, and overwrites the player's record: the
  registry then holds one player and no tagger. (For a join of an id that is not
  registered, for a leave and for a tick the invariant is kept: lemmas
  \<open>join_fresh_one_tagger\<close>, \<open>disconnect_one_tagger\<close> and \<open>tick_one_tagger\<close>.)
\<close>

theorem rejoin_loses_tagger:
  "role_flags (players (fst (join rnd k a d \<lparr>players = [], currentMap = cur\<rparr>)))
     = [(a, True, False, 0)]
   \<and> role_flags (players (fst (join rnd' k' a d'
        (fst (join rnd k a d \<lparr>players = [], currentMap = cur\<rparr>)))))
     = [(a, False, False, 0)]"
proof -
  let ?s1 = "fst (join rnd k a d \<lparr>players = [], currentMap = cur\<rparr>)"
  obtain p where p: "players ?s1 = [(a, p)]" "isTagger p" "\<not> frozen p" "frozenUntil p = 0"
    using join_shape [of rnd k a d "\<lparr>players = [], currentMap = cur\<rparr>"] by auto
  obtain q where q: "players (fst (join rnd' k' a d' ?s1)) = AList.update a q (players ?s1)"
      "isTagger q = (players ?s1 = [])" "\<not> frozen q" "frozenUntil q = 0"
    using join_shape [of rnd' k' a d' ?s1] by blast
  show ?thesis using p q by (simp add: role_flags_def)
qed

theorem rejoin_loses_tagger_witness:
  "\<not> one_tagger (players (fst (join unlucky 2 ''a'' hello (fst (join unlucky 0 ''a'' hello empty_game)))))
   \<and> one_tagger (players (fst (join unlucky 0 ''a'' hello empty_game)))"
  using rejoin_loses_tagger [of unlucky 0 "''a''" hello MapPlus unlucky 2 hello]
  by (auto simp: role_flags_def one_tagger_def taggers_def empty_game_def)

end
